theory Spec2Isabelle
  imports Main
begin

section \<open>The Go standard library functions the mapping engine calls\<close>

text \<open>
  Go strings are byte sequences; \<open>string\<close> is a list of 8-bit characters, so indices and
  lengths agree. An index result of \<open>-1\<close> in Go is \<open>None\<close> here.
\<close>

text \<open>\<open>strings.HasPrefix(s, sub)\<close>.\<close>

definition strings_HasPrefix :: "string \<Rightarrow> string \<Rightarrow> bool" where
  "strings_HasPrefix s sub = (take (length sub) s = sub)"

text \<open>\<open>strings.Index(s, sub)\<close>: the index of the first instance of \<open>sub\<close> in \<open>s\<close>.\<close>

fun strings_Index :: "string \<Rightarrow> string \<Rightarrow> nat option" where
  "strings_Index [] sub = (if sub = [] then Some 0 else None)"
| "strings_Index (c # cs) sub =
     (if strings_HasPrefix (c # cs) sub then Some 0
      else map_option Suc (strings_Index cs sub))"

text \<open>\<open>strings.LastIndex(s, sub)\<close>: the index of the last instance of \<open>sub\<close> in \<open>s\<close>.\<close>

fun strings_LastIndex :: "string \<Rightarrow> string \<Rightarrow> nat option" where
  "strings_LastIndex [] sub = (if sub = [] then Some 0 else None)"
| "strings_LastIndex (c # cs) sub =
     (case strings_LastIndex cs sub of
        Some j \<Rightarrow> Some (Suc j)
      | None \<Rightarrow> if strings_HasPrefix (c # cs) sub then Some 0 else None)"

text \<open>\<open>strings.Contains(s, sub)\<close> is \<open>Index(s, sub) >= 0\<close>.\<close>

definition strings_Contains :: "string \<Rightarrow> string \<Rightarrow> bool" where
  "strings_Contains s sub = (strings_Index s sub \<noteq> None)"

text \<open>
  \<open>strings.Replace(s, old, new, n)\<close> for a non-empty \<open>old\<close> and \<open>n \<ge> 0\<close>: the first
  \<open>n\<close> non-overlapping instances of \<open>old\<close> are replaced, searching on after each one.
\<close>

fun strings_Replace :: "string \<Rightarrow> string \<Rightarrow> string \<Rightarrow> nat \<Rightarrow> string" where
  "strings_Replace s old new 0 = s"
| "strings_Replace s old new (Suc n) =
     (case strings_Index s old of
        None \<Rightarrow> s
      | Some j \<Rightarrow> take j s @ new @ strings_Replace (drop (j + length old) s) old new n)"

text \<open>
  The loop of \<open>strings.genSplit\<close> for a non-empty separator: at most \<open>k\<close> cuts, each at
  the first separator of what is left; the remainder is the last piece.
\<close>

fun genSplit :: "string \<Rightarrow> string \<Rightarrow> nat \<Rightarrow> string list" where
  "genSplit s sep 0 = [s]"
| "genSplit s sep (Suc k) =
     (case strings_Index s sep of
        None \<Rightarrow> [s]
      | Some m \<Rightarrow> take m s # genSplit (drop (m + length sep) s) sep k)"

text \<open>
  \<open>strings.SplitN(s, sep, n)\<close> for \<open>n \<ge> 0\<close>: no piece for \<open>n = 0\<close>, otherwise at most
  \<open>n\<close> pieces (Go also clamps \<open>n\<close> to \<open>len(s) + 1\<close>). \<open>strings.Split(s, sep)\<close> cuts at
  every separator: Go runs the same loop with \<open>n = Count(s, sep) + 1\<close>, which the clamp
  \<open>len(s) + 1\<close> bounds, and the loop stops by itself when no separator is left.
\<close>

definition strings_SplitN :: "string \<Rightarrow> string \<Rightarrow> nat \<Rightarrow> string list" where
  "strings_SplitN s sep n = (if n = 0 then [] else genSplit s sep (min (n - 1) (length s)))"

definition strings_Split :: "string \<Rightarrow> string \<Rightarrow> string list" where
  "strings_Split s sep = genSplit s sep (length s)"

text \<open>\<open>strings.TrimLeft(s, cutset)\<close>: leading bytes that occur in \<open>cutset\<close> are removed.\<close>

definition strings_TrimLeft :: "string \<Rightarrow> string \<Rightarrow> string" where
  "strings_TrimLeft s cutset = dropWhile (\<lambda>c. c \<in> set cutset) s"

text \<open>\<open>path.Split(p)\<close>: the cut is right after the final slash.\<close>

definition path_Split :: "string \<Rightarrow> string \<times> string" where
  "path_Split p =
     (case strings_LastIndex p ''/'' of
        None \<Rightarrow> ([], p)
      | Some i \<Rightarrow> (take (i + 1) p, drop (i + 1) p))"

text \<open>
  \<open>path.Clean\<close>. The output buffer \<open>out\<close> of the Go code is a string whose length is the
  write index \<open>out.w\<close>; \<open>backtrack\<close> is the inner loop that moves the write index back to
  the previous slash when a \<open>..\<close> element is met.
\<close>

fun backtrack :: "string \<Rightarrow> nat \<Rightarrow> nat \<Rightarrow> nat" where
  "backtrack out dotdot w =
     (if w > dotdot \<and> out ! w \<noteq> CHR ''/'' then backtrack out dotdot (w - 1) else w)"

declare backtrack.simps [simp del]

text \<open>
  The tests of the loop on the unread input \<open>path[r:]\<close>: it starts with a \<open>.\<close>
  element, or with a \<open>..\<close> element (a dot or two dots, then the end or a slash).
\<close>

definition dotElem :: "string \<Rightarrow> bool" where
  "dotElem rest = (take 1 rest = ''.'' \<and> (drop 1 rest = [] \<or> take 1 (drop 1 rest) = ''/''))"

definition dotdotElem :: "string \<Rightarrow> bool" where
  "dotdotElem rest = (take 2 rest = ''..'' \<and> (drop 2 rest = [] \<or> take 1 (drop 2 rest) = ''/''))"

function cleanLoop :: "bool \<Rightarrow> string \<Rightarrow> string \<Rightarrow> nat \<Rightarrow> string" where
  "cleanLoop rooted [] out dotdot = out"
| "cleanLoop rooted (c # cs) out dotdot =
     (if c = CHR ''/'' then cleanLoop rooted cs out dotdot
      else if dotElem (c # cs) then cleanLoop rooted cs out dotdot
      else if dotdotElem (c # cs)
      then
        (if length out > dotdot
         then cleanLoop rooted (drop 1 cs) (take (backtrack out dotdot (length out - 1)) out) dotdot
         else if \<not> rooted
         then cleanLoop rooted (drop 1 cs) ((if out \<noteq> [] then out @ ''/'' else out) @ ''..'')
                (length ((if out \<noteq> [] then out @ ''/'' else out) @ ''..''))
         else cleanLoop rooted (drop 1 cs) out dotdot)
      else
        cleanLoop rooted (dropWhile (\<lambda>x. x \<noteq> CHR ''/'') cs)
          ((if rooted \<and> length out \<noteq> 1 \<or> \<not> rooted \<and> length out \<noteq> 0 then out @ ''/'' else out)
             @ c # takeWhile (\<lambda>x. x \<noteq> CHR ''/'') cs)
          dotdot)"
  by pat_completeness auto
termination
  by (relation "measure (\<lambda>(rooted, rest, out, dotdot). length rest)")
     (simp_all add: less_Suc_eq_le length_dropWhile_le)

definition path_Clean :: "string \<Rightarrow> string" where
  "path_Clean p =
     (if p = [] then ''.''
      else
        let rooted = (take 1 p = ''/'');
            out = (if rooted then cleanLoop True (drop 1 p) ''/'' 1
                   else cleanLoop False p [] 0)
        in if out = [] then ''.'' else out)"

text \<open>
  \<open>path.Join(elem...)\<close>: empty elements are ignored, the others are joined with slashes and
  the result is cleaned; when every element is empty the result is the empty string.
\<close>

fun joinBuf :: "string list \<Rightarrow> string \<Rightarrow> string" where
  "joinBuf [] buf = buf"
| "joinBuf (e # es) buf =
     joinBuf es (if buf \<noteq> [] \<or> e \<noteq> [] then (if buf \<noteq> [] then buf @ ''/'' else buf) @ e else buf)"

definition path_Join :: "string list \<Rightarrow> string" where
  "path_Join elem = (if sum_list (map length elem) = 0 then [] else path_Clean (joinBuf elem []))"

text \<open>
  \<open>filepath.Base(p)\<close> with the slash as the path separator: trailing slashes are
  stripped and the last element is returned.
\<close>

definition filepath_Base :: "string \<Rightarrow> string" where
  "filepath_Base p =
     (if p = [] then ''.''
      else
        let p1 = rev (dropWhile (\<lambda>c. c = CHR ''/'') (rev p));
            p2 = rev (takeWhile (\<lambda>c. c \<noteq> CHR ''/'') (rev p1))
        in if p2 = [] then ''/'' else p2)"

section \<open>Data model\<close>

text \<open>
  Go error values. \<open>iterator.Done\<close> is the sentinel an object iterator returns when no item
  is left; every other error is a value with a message. \<open>Error\<close> is the method
  \<open>err.Error()\<close>. A Go result \<open>(v, err)\<close> is a pair whose error is \<open>None\<close> for \<open>nil\<close>.
\<close>

datatype error = IteratorDone | Failure string

fun Error :: "error \<Rightarrow> string" where
  "Error IteratorDone = ''no more items in iterator''"
| "Error (Failure msg) = msg"

record clip =
  Type :: string
  Path :: string

record sequence =
  Clips :: "clip list"

record mapping =
  Sequences :: "sequence list"

text \<open>The configuration (\<open>Config\<close>, \<open>SignConfig\<close>); a nil private key is \<open>None\<close>.\<close>

record SignConfig =
  Expiration :: int
  AccessID :: string
  PrivateKey :: "string option"

record Config =
  Listen :: string
  BucketName :: string
  LogLevel :: string
  MapPrefix :: string
  ExtraResourcesToken :: string
  MapRegexFilter :: string
  MapRegexHDFilter :: string
  MapExtraPrefixes :: "string list"
  SignConfig :: SignConfig

text \<open>The types of the storage client: \<open>storage.ObjectAttrs\<close>, \<open>storage.Query\<close>,
  \<open>storage.SignedURLOptions\<close> (times are integers, in nanoseconds).\<close>

record ObjectAttrs =
  Bucket :: string
  Name :: string

record Query =
  Prefix :: string
  Delimiter :: string

record SignedURLOptions =
  GoogleAccessID :: string
  OptPrivateKey :: string
  Method :: string
  Expires :: int

text \<open>The request, as far as the handler reads it: the method, \<open>r.URL.Path\<close> and the
  parsed query \<open>r.URL.Query()\<close>, which gives every key its list of values.\<close>

record Request =
  ReqMethod :: string
  URL_Path :: string
  URL_Query :: "string \<Rightarrow> string list"

text \<open>
  The response written to the \<open>http.ResponseWriter\<close>: the status, the content type and the
  body, which is either plain text or the JSON encoding of a mapping (the encoder is outside
  the engine, so the body keeps the mapping itself).
\<close>

datatype body = Text string | Json mapping

record Response =
  status :: nat
  contentType :: string
  content :: body

subsection \<open>The external collaborators and the world they act on\<close>

text \<open>
  One call of the signer, as the world records it: the bucket, the object key, the options
  and the time at which the call was made.
\<close>

record SignCall =
  signBucket :: string
  signKey :: string
  signOpts :: SignedURLOptions
  signAt :: int

text \<open>
  The world outside the engine: the clock, the listing calls made so far and the signer
  calls made so far.
\<close>

record world =
  now :: int
  listCalls :: "Query list"
  signCalls :: "SignCall list"

text \<open>
  The collaborators are parameters of the engine.
  \<^item> \<open>Objects n q\<close> is the iterator that the bucket handle returns to the listing call
    number \<open>n\<close> (counted from 0) with query \<open>q\<close>: the objects that \<open>iter.Next()\<close> yields,
    in order, and the error that ends the iteration (\<open>iterator.Done\<close> or a failure). Two
    calls with the same query may answer differently.
  \<^item> \<open>SignedURL bucket key opts\<close> is \<open>storage.SignedURL\<close>; one call takes \<open>signCost\<close>
    nanoseconds.
  \<^item> \<open>RequestURI raw\<close> is \<open>url.Parse(raw)\<close> followed by \<open>RequestURI()\<close> on the parsed URL.
  \<^item> \<open>Compile pattern\<close> is \<open>regexp.Compile\<close>: the matcher of a valid pattern, \<open>None\<close> for
    a pattern that does not compile.
\<close>

record env =
  Objects :: "nat \<Rightarrow> Query \<Rightarrow> ObjectAttrs list \<times> error"
  SignedURL :: "string \<Rightarrow> string \<Rightarrow> SignedURLOptions \<Rightarrow> string \<times> error option"
  signCost :: int
  RequestURI :: "string \<Rightarrow> string \<times> error option"
  Compile :: "string \<Rightarrow> (string \<Rightarrow> bool) option"

text \<open>
  \<open>regexp.MatchString(pattern, s)\<close> compiles the pattern and returns \<open>(false, err)\<close> when it
  does not compile, \<open>(re.MatchString(s), nil)\<close> otherwise.
\<close>

definition regexp_MatchString :: "env \<Rightarrow> string \<Rightarrow> string \<Rightarrow> bool \<times> error option" where
  "regexp_MatchString e pattern s =
     (case Compile e pattern of
        None \<Rightarrow> (False, Some (Failure ''error parsing regexp''))
      | Some re \<Rightarrow> (re s, None))"

text \<open>\<open>url.Values.Get(key)\<close>: the first value of the key, the empty string without one.\<close>

definition Values_Get :: "(string \<Rightarrow> string list) \<Rightarrow> string \<Rightarrow> string" where
  "Values_Get v key = (case v key of [] \<Rightarrow> [] | x # _ \<Rightarrow> x)"

text \<open>\<open>http.Error(w, msg, code)\<close> writes the code and the message as a line of plain text.\<close>

definition http_Error :: "string \<Rightarrow> nat \<Rightarrow> Response" where
  "http_Error msg code =
     \<lparr>status = code, contentType = ''text/plain; charset=utf-8'', content = Text (msg @ [CHR 0x0A])\<rparr>"

section \<open>The mapping engine\<close>

text \<open>
  The two calls that reach the outside. A listing call is answered by the iterator of its
  call number and recorded; a signer call is recorded with the time at which it is made, and
  the clock moves on by its cost.
\<close>

definition callObjects :: "env \<Rightarrow> Query \<Rightarrow> world \<Rightarrow> (ObjectAttrs list \<times> error) \<times> world" where
  "callObjects e q w = (Objects e (length (listCalls w)) q, w\<lparr>listCalls := listCalls w @ [q]\<rparr>)"

definition callSignedURL ::
  "env \<Rightarrow> string \<Rightarrow> string \<Rightarrow> SignedURLOptions \<Rightarrow> world \<Rightarrow> (string \<times> error option) \<times> world" where
  "callSignedURL e bucket key opts w =
     (SignedURL e bucket key opts,
      w\<lparr>signCalls := signCalls w @
           [\<lparr>signBucket = bucket, signKey = key, signOpts = opts, signAt = now w\<rparr>],
        now := now w + signCost e\<rparr>)"

subsection \<open>\<open>SignConfig.Options\<close>\<close>

text \<open>
  The options for signing, \<open>(nil, nil)\<close> when signing is disabled. \<open>time.Now()\<close> reads the
  clock of the world.
\<close>

definition Options :: "SignConfig \<Rightarrow> world \<Rightarrow> SignedURLOptions option \<times> error option" where
  "Options c w =
     (if AccessID c = [] \<or> PrivateKey c = None then (None, None)
      else (Some \<lparr>GoogleAccessID = AccessID c, OptPrivateKey = the (PrivateKey c),
                  Method = ''GET'', Expires = now w + Expiration c\<rparr>, None))"

subsection \<open>\<open>getPrefixes\<close>\<close>

definition getPrefixes :: "string \<Rightarrow> Config \<Rightarrow> string list" where
  "getPrefixes originalPrefix config =
     (let lastPart = snd (path_Split originalPrefix)
      in foldl (\<lambda>prefixes p. prefixes @ [path_Join [p, lastPart]])
           [originalPrefix] (MapExtraPrefixes config))"

subsection \<open>\<open>expandPrefix\<close>\<close>

definition maxTry :: nat where
  "maxTry = 5"

text \<open>
  The first statement of \<open>expandPrefix\<close>: the filter pattern and the prefix to list, chosen
  by the marker \<open>__HD\<close>.
\<close>

definition selectFilter :: "Config \<Rightarrow> string \<Rightarrow> string \<times> string" where
  "selectFilter config prefix =
     (if strings_Contains prefix ''__HD''
      then (MapRegexHDFilter config, strings_Replace prefix ''__HD'' [] 1)
      else (MapRegexFilter config, prefix))"

text \<open>
  The inner loop over the items of one iterator: a sequence of one clip is appended for each
  object whose base filename matches; the error of \<open>regexp.MatchString\<close> is dropped.
\<close>

fun collect :: "env \<Rightarrow> string \<Rightarrow> ObjectAttrs list \<Rightarrow> sequence list \<Rightarrow> sequence list" where
  "collect e filterRegex [] sequences = sequences"
| "collect e filterRegex (obj # objs) sequences =
     (let filename = filepath_Base (Name obj);
          matched = fst (regexp_MatchString e filterRegex filename)
      in collect e filterRegex objs
           (if matched
            then sequences @
              [\<lparr>Clips = [\<lparr>Type = ''source'', Path = ''/'' @ Bucket obj @ ''/'' @ Name obj\<rparr>]\<rparr>]
            else sequences))"

text \<open>
  The loop \<open>for i := 0; i < maxTry; i++\<close>, by the number of tries that are left; \<open>err\<close> is
  the error variable of the function, which the loop leaves as the last failure.
\<close>

fun tryListing ::
  "env \<Rightarrow> string \<Rightarrow> string \<Rightarrow> nat \<Rightarrow> error option \<Rightarrow> world
     \<Rightarrow> (sequence list \<times> error option) \<times> world" where
  "tryListing e filterRegex prefix 0 err w = (([], err), w)"
| "tryListing e filterRegex prefix (Suc k) err w =
     (case callObjects e \<lparr>Prefix = prefix, Delimiter = ''/''\<rparr> w of
        ((objs, err'), w1) \<Rightarrow>
          let sequences = collect e filterRegex objs []
          in if err' = IteratorDone then ((sequences, None), w1)
             else tryListing e filterRegex prefix k (Some err') w1)"

definition expandPrefix ::
  "env \<Rightarrow> string \<Rightarrow> Config \<Rightarrow> world \<Rightarrow> (sequence list \<times> error option) \<times> world" where
  "expandPrefix e prefix config w =
     (case selectFilter config prefix of
        (filterRegex, prefix') \<Rightarrow> tryListing e filterRegex prefix' maxTry None w)"

subsection \<open>\<open>getPrefixMapping\<close>\<close>

text \<open>The loop over the physical prefixes; on a failure the mapping built so far is
  returned with the error.\<close>

fun expandAll ::
  "env \<Rightarrow> Config \<Rightarrow> string list \<Rightarrow> mapping \<Rightarrow> world \<Rightarrow> (mapping \<times> error option) \<times> world" where
  "expandAll e config [] m w = ((m, None), w)"
| "expandAll e config (p # ps) m w =
     (case expandPrefix e p config w of
        ((sequences, Some err), w1) \<Rightarrow> ((m, Some err), w1)
      | ((sequences, None), w1) \<Rightarrow>
          expandAll e config ps (m\<lparr>Sequences := Sequences m @ sequences\<rparr>) w1)"

definition getPrefixMapping ::
  "env \<Rightarrow> string \<Rightarrow> Config \<Rightarrow> world \<Rightarrow> (mapping \<times> error option) \<times> world" where
  "getPrefixMapping e prefix config w =
     expandAll e config (getPrefixes prefix config) \<lparr>Sequences = []\<rparr> w"

subsection \<open>\<open>appendExtraResources\<close>\<close>

definition appendExtraResources :: "Request \<Rightarrow> Config \<Rightarrow> mapping \<Rightarrow> mapping" where
  "appendExtraResources r config m =
     (let resources = Values_Get (URL_Query r) (ExtraResourcesToken config)
      in foldl (\<lambda>m resource.
                  if resource \<noteq> []
                  then m\<lparr>Sequences := Sequences m @
                         [\<lparr>Clips = [\<lparr>Type = ''source'', Path = resource\<rparr>]\<rparr>]\<rparr>
                  else m)
           m (strings_Split resources '',''))"

subsection \<open>\<open>signedPath\<close> and \<open>signedURLs\<close>\<close>

definition signedPath ::
  "env \<Rightarrow> string \<Rightarrow> SignedURLOptions \<Rightarrow> world \<Rightarrow> (string \<times> error option) \<times> world" where
  "signedPath e path opts w =
     (let parts = strings_SplitN path ''/'' 3
      in if length parts \<noteq> 3 then ((path, None), w)
         else
           let bucketName = parts ! 1;
               objectKey = parts ! 2
           in case callSignedURL e bucketName objectKey opts w of
                ((rawSignedURL, Some err), w1) \<Rightarrow> (([], Some err), w1)
              | ((rawSignedURL, None), w1) \<Rightarrow>
                  (case RequestURI e rawSignedURL of
                     (uri, Some err) \<Rightarrow> (([], Some err), w1)
                   | (uri, None) \<Rightarrow> ((uri, None), w1)))"

text \<open>
  The two nested loops of \<open>signedURLs\<close>. The Go code writes each signed clip back into the
  slice it iterates over, and the mapping it returns shares that slice: the lists returned
  here are the contents of the slices when the function returns, also on an error, where the
  clips signed before the failure stay rewritten.
\<close>

fun signClips ::
  "env \<Rightarrow> SignedURLOptions \<Rightarrow> clip list \<Rightarrow> world \<Rightarrow> (clip list \<times> error option) \<times> world" where
  "signClips e opts [] w = (([], None), w)"
| "signClips e opts (clip # rest) w =
     (case signedPath e (Path clip) opts w of
        ((path, Some err), w1) \<Rightarrow> ((clip # rest, Some err), w1)
      | ((path, None), w1) \<Rightarrow>
          (case signClips e opts rest w1 of
             ((rest', err), w2) \<Rightarrow> ((clip\<lparr>Path := path\<rparr> # rest', err), w2)))"

fun signSequences ::
  "env \<Rightarrow> SignedURLOptions \<Rightarrow> sequence list \<Rightarrow> world
     \<Rightarrow> (sequence list \<times> error option) \<times> world" where
  "signSequences e opts [] w = (([], None), w)"
| "signSequences e opts (seq # rest) w =
     (case signClips e opts (Clips seq) w of
        ((clips, Some err), w1) \<Rightarrow> ((seq\<lparr>Clips := clips\<rparr> # rest, Some err), w1)
      | ((clips, None), w1) \<Rightarrow>
          (case signSequences e opts rest w1 of
             ((rest', err), w2) \<Rightarrow> ((seq\<lparr>Clips := clips\<rparr> # rest', err), w2)))"

definition signedURLs ::
  "env \<Rightarrow> Config \<Rightarrow> mapping \<Rightarrow> world \<Rightarrow> (mapping \<times> error option) \<times> world" where
  "signedURLs e config m w =
     (case Options (SignConfig config) w of
        (opts, err) \<Rightarrow>
          if err \<noteq> None \<or> opts = None then ((m, err), w)
          else
            (case signSequences e (the opts) (Sequences m) w of
               ((seqs, err'), w1) \<Rightarrow> ((m\<lparr>Sequences := seqs\<rparr>, err'), w1)))"

subsection \<open>\<open>getMapHandler\<close>\<close>

text \<open>The handler that \<open>getMapHandler\<close> returns, without its logging.\<close>

definition getMapHandler :: "env \<Rightarrow> Config \<Rightarrow> Request \<Rightarrow> world \<Rightarrow> Response \<times> world" where
  "getMapHandler e c r w =
     (if ReqMethod r \<noteq> ''GET'' then (http_Error ''method not allowed'' 405, w)
      else
        let prefix = strings_TrimLeft (URL_Path r) ''/''
        in if prefix = [] then (http_Error ''prefix cannot be empty'' 400, w)
           else
             (case getPrefixMapping e prefix c w of
                ((m, err), w1) \<Rightarrow>
                  if err \<noteq> None \<and> err \<noteq> Some IteratorDone
                  then (http_Error (Error (the err)) 500, w1)
                  else
                    (case signedURLs e c (appendExtraResources r c m) w1 of
                       ((m', err'), w2) \<Rightarrow>
                         if err' \<noteq> None then (http_Error (Error (the err')) 500, w2)
                         else (\<lparr>status = 200, contentType = ''application/json'',
                                content = Json m'\<rparr>, w2))))"

section \<open>Sample collaborators and requests\<close>

text \<open>
  Concrete collaborators on which the engine is run below. The sample compiler accepts every
  pattern but \<open>(\<close>, which no regular expression parser accepts, and reads a pattern as a
  literal to be found in the filename. The sample signer answers with a URL of the storage
  host that carries a signature parameter, and the sample URL parser cuts the scheme and the
  host off such a URL.
\<close>

definition sampleCompile :: "string \<Rightarrow> (string \<Rightarrow> bool) option" where
  "sampleCompile pattern =
     (if pattern = ''('' then None else Some (\<lambda>s. strings_Contains s pattern))"

definition sampleSignedURL :: "string \<Rightarrow> string \<Rightarrow> SignedURLOptions \<Rightarrow> string \<times> error option" where
  "sampleSignedURL bucket key opts =
     (''https://storage.googleapis.com/'' @ bucket @ ''/'' @ key @ ''?Signature=sig'', None)"

definition sampleRequestURI :: "string \<Rightarrow> string \<times> error option" where
  "sampleRequestURI raw = (drop (length ''https://storage.googleapis.com'') raw, None)"

definition sampleConfig :: Config where
  "sampleConfig =
     \<lparr>Listen = '':8080'', BucketName = ''media'', LogLevel = ''debug'', MapPrefix = ''/map/'',
      ExtraResourcesToken = ''extra'', MapRegexFilter = ''p.mp4'', MapRegexHDFilter = ''720p.mp4'',
      MapExtraPrefixes = [''subtitles/''],
      SignConfig = \<lparr>Expiration = 10, AccessID = ''id'', PrivateKey = Some ''key''\<rparr>\<rparr>"

definition sampleRequest :: "string list \<Rightarrow> Request" where
  "sampleRequest extra =
     \<lparr>ReqMethod = ''GET'', URL_Path = ''videos/asset'',
      URL_Query = (\<lambda>key. if key = ''extra'' then extra else [])\<rparr>"

text \<open>
  A bucket whose first listing call fails after one object and whose later calls succeed
  with another object, and a bucket whose every listing call fails after one object, each
  call with an error of its own.
\<close>

definition flakyObjects :: "nat \<Rightarrow> Query \<Rightarrow> ObjectAttrs list \<times> error" where
  "flakyObjects n q =
     (if n = 0 then ([\<lparr>Bucket = ''media'', Name = ''videos/asset_360p.mp4''\<rparr>], Failure ''transient'')
      else ([\<lparr>Bucket = ''media'', Name = ''videos/asset_720p.mp4''\<rparr>], IteratorDone))"

definition brokenObjects :: "nat \<Rightarrow> Query \<Rightarrow> ObjectAttrs list \<times> error" where
  "brokenObjects n q =
     ([\<lparr>Bucket = ''media'', Name = ''videos/asset_360p.mp4''\<rparr>],
      Failure (replicate (Suc n) CHR ''x''))"

definition sampleEnv :: "(nat \<Rightarrow> Query \<Rightarrow> ObjectAttrs list \<times> error) \<Rightarrow> env" where
  "sampleEnv objects =
     \<lparr>Objects = objects, SignedURL = sampleSignedURL, signCost = 1,
      RequestURI = sampleRequestURI, Compile = sampleCompile\<rparr>"

definition world0 :: world where
  "world0 = \<lparr>now = 0, listCalls = [], signCalls = []\<rparr>"

text \<open>
  The options that \<open>Options\<close> gives for the sample configuration at time 0, a mapping of a
  listed object and an injected resource, and a mapping of two listed objects.
\<close>

definition sampleOpts :: SignedURLOptions where
  "sampleOpts = \<lparr>GoogleAccessID = ''id'', OptPrivateKey = ''key'', Method = ''GET'', Expires = 10\<rparr>"

definition mixedMapping :: mapping where
  "mixedMapping =
     \<lparr>Sequences =
        [\<lparr>Clips = [\<lparr>Type = ''source'', Path = ''/media/videos/asset_720p.mp4''\<rparr>]\<rparr>,
         \<lparr>Clips = [\<lparr>Type = ''source'', Path = ''intro.mp4''\<rparr>]\<rparr>]\<rparr>"

definition listedMapping :: mapping where
  "listedMapping =
     \<lparr>Sequences =
        [\<lparr>Clips = [\<lparr>Type = ''source'', Path = ''/media/videos/asset_360p.mp4''\<rparr>]\<rparr>,
         \<lparr>Clips = [\<lparr>Type = ''source'', Path = ''/media/videos/asset_720p.mp4''\<rparr>]\<rparr>]\<rparr>"

text \<open>
  A bucket whose first listing call succeeds and whose later calls all fail, and a signer
  that rejects its credentials.
\<close>

definition halfObjects :: "nat \<Rightarrow> Query \<Rightarrow> ObjectAttrs list \<times> error" where
  "halfObjects n q =
     (if n = 0 then ([\<lparr>Bucket = ''media'', Name = ''videos/asset_720p.mp4''\<rparr>], IteratorDone)
      else ([], Failure ''unavailable''))"

definition failingSignedURL :: "string \<Rightarrow> string \<Rightarrow> SignedURLOptions \<Rightarrow> string \<times> error option" where
  "failingSignedURL bucket key opts = ([], Some (Failure ''bad key''))"

section \<open>Notions used in the statements about paths\<close>

text \<open>
  A plain name is a path element that \<open>path.Clean\<close> keeps as it is: not empty, without a
  slash, and neither \<open>.\<close> nor \<open>..\<close>. \<open>slashJoin\<close> writes names with one slash between
  neighbours.
\<close>

definition plainName :: "string \<Rightarrow> bool" where
  "plainName n = (n \<noteq> [] \<and> CHR ''/'' \<notin> set n \<and> n \<noteq> ''.'' \<and> n \<noteq> ''..'')"

fun slashJoin :: "string list \<Rightarrow> string" where
  "slashJoin [] = []"
| "slashJoin [n] = n"
| "slashJoin (n # ns) = n @ ''/'' @ slashJoin ns"

section \<open>Properties of the library functions\<close>

subsection \<open>Searching a string\<close>

lemma strings_Index_Some:
  "strings_Index s sub = Some j \<Longrightarrow> j + length sub \<le> length s \<and> take (length sub) (drop j s) = sub"
proof (induction s arbitrary: j)
  case Nil
  then show ?case by (simp split: if_splits)
next
  case (Cons c cs)
  show ?case
  proof (cases "strings_HasPrefix (c # cs) sub")
    case True
    with Cons.prems have j: "j = 0" by simp
    from True have t: "take (length sub) (c # cs) = sub" by (simp add: strings_HasPrefix_def)
    from arg_cong [OF t, of length] have "length sub \<le> length (c # cs)"
      by simp
    with j t show ?thesis by simp
  next
    case False
    with Cons.prems obtain j' where j': "strings_Index cs sub = Some j'" "j = Suc j'" by auto
    from Cons.IH [OF j'(1)] j'(2) show ?thesis by simp
  qed
qed

lemma strings_Index_first:
  "strings_Index s sub = Some j \<Longrightarrow> i < j \<Longrightarrow> take (length sub) (drop i s) \<noteq> sub"
proof (induction s arbitrary: i j)
  case Nil
  then show ?case by (simp split: if_splits)
next
  case (Cons c cs)
  show ?case
  proof (cases "strings_HasPrefix (c # cs) sub")
    case True
    with Cons.prems show ?thesis by simp
  next
    case False
    with Cons.prems obtain j' where j': "strings_Index cs sub = Some j'" "j = Suc j'" by auto
    show ?thesis
    proof (cases i)
      case 0
      with False show ?thesis by (simp add: strings_HasPrefix_def)
    next
      case (Suc i')
      with Cons.prems j' have "i' < j'" by simp
      from Cons.IH [OF j'(1) this] Suc show ?thesis by simp
    qed
  qed
qed

lemma strings_Index_None:
  "strings_Index s sub = None \<Longrightarrow> take (length sub) (drop i s) \<noteq> sub"
proof (induction s arbitrary: i)
  case Nil
  then show ?case by (auto split: if_splits)
next
  case (Cons c cs)
  from Cons.prems have nh: "\<not> strings_HasPrefix (c # cs) sub" and n: "strings_Index cs sub = None"
    by (auto split: if_splits)
  show ?case
  proof (cases i)
    case 0
    with nh show ?thesis by (simp add: strings_HasPrefix_def)
  next
    case (Suc i')
    with Cons.IH [OF n, of i'] show ?thesis by simp
  qed
qed

lemma strings_Index_split:
  assumes "strings_Index s sub = Some j"
  shows "s = take j s @ sub @ drop (j + length sub) s"
proof -
  from strings_Index_Some [OF assms] have "take (length sub) (drop j s) = sub" by simp
  then have "drop j s = sub @ drop (length sub) (drop j s)"
    by (metis append_take_drop_id)
  then have "s = take j s @ sub @ drop (length sub) (drop j s)"
    by (metis append_take_drop_id)
  then show ?thesis by (simp add: add.commute)
qed

lemma strings_Contains_iff: "strings_Contains s sub \<longleftrightarrow> (\<exists>a b. s = a @ sub @ b)"
proof
  assume "strings_Contains s sub"
  then obtain j where "strings_Index s sub = Some j" by (auto simp: strings_Contains_def)
  from strings_Index_split [OF this] show "\<exists>a b. s = a @ sub @ b" by blast
next
  assume "\<exists>a b. s = a @ sub @ b"
  then obtain a b where s: "s = a @ sub @ b" by blast
  have "take (length sub) (drop (length a) s) = sub" by (simp add: s)
  then have "strings_Index s sub \<noteq> None" using strings_Index_None by blast
  then show "strings_Contains s sub" by (simp add: strings_Contains_def)
qed

lemma strings_Index_char_notin:
  assumes "strings_Index s [c] = Some j"
  shows "c \<notin> set (take j s)"
proof
  assume "c \<in> set (take j s)"
  then obtain i where i: "i < length (take j s)" "take j s ! i = c"
    by (auto simp: in_set_conv_nth)
  then have ij: "i < j" "i < length s" by simp_all
  with i have "s ! i = c" by simp
  with ij have "take (length [c]) (drop i s) = [c]"
    by (simp add: take_Suc_conv_app_nth Cons_nth_drop_Suc [symmetric])
  with strings_Index_first [OF assms ij(1)] show False by blast
qed

lemma strings_Index_char_None:
  assumes "strings_Index s [c] = None"
  shows "c \<notin> set s"
proof
  assume "c \<in> set s"
  then obtain i where i: "i < length s" "s ! i = c" by (auto simp: in_set_conv_nth)
  then have "take (length [c]) (drop i s) = [c]"
    by (simp add: Cons_nth_drop_Suc [symmetric])
  with strings_Index_None [OF assms] show False by blast
qed

subsection \<open>Splitting at a one-byte separator\<close>

lemma genSplit_char:
  "length s \<le> k \<Longrightarrow>
     concat (map (\<lambda>t. t @ [c]) (genSplit s [c] k)) = s @ [c] \<and>
     (\<forall>t \<in> set (genSplit s [c] k). c \<notin> set t)"
proof (induction k arbitrary: s)
  case 0
  then show ?case by simp
next
  case (Suc k)
  show ?case
  proof (cases "strings_Index s [c]")
    case None
    with strings_Index_char_None [OF None] show ?thesis by simp
  next
    case (Some m)
    from strings_Index_Some [OF Some] have m: "m + 1 \<le> length s" by simp
    with Suc.prems have "length (drop (m + 1) s) \<le> k" by simp
    from Suc.IH [OF this]
    have ih: "concat (map (\<lambda>t. t @ [c]) (genSplit (drop (m + 1) s) [c] k)) = drop (m + 1) s @ [c]"
      and ih': "\<forall>t \<in> set (genSplit (drop (m + 1) s) [c] k). c \<notin> set t"
      by simp_all
    have g: "genSplit s [c] (Suc k) = take m s # genSplit (drop (m + 1) s) [c] k"
      using Some by simp
    from strings_Index_split [OF Some] have s: "take m s @ [c] @ drop (m + 1) s = s" by simp
    have "concat (map (\<lambda>t. t @ [c]) (genSplit s [c] (Suc k)))
            = (take m s @ [c] @ drop (m + 1) s) @ [c]"
      unfolding g using ih by simp
    with s have "concat (map (\<lambda>t. t @ [c]) (genSplit s [c] (Suc k))) = s @ [c]"
      by simp
    moreover have "\<forall>t \<in> set (genSplit s [c] (Suc k)). c \<notin> set t"
      unfolding g using ih' strings_Index_char_notin [OF Some] by simp
    ultimately show ?thesis by blast
  qed
qed

text \<open>
  \<open>strings.Split\<close> at a byte: no piece holds the separator, and the pieces, each followed by
  the separator, give the string back followed by the separator.
\<close>

lemma strings_Split_char:
  "concat (map (\<lambda>t. t @ [c]) (strings_Split s [c])) = s @ [c] \<and>
   (\<forall>t \<in> set (strings_Split s [c]). c \<notin> set t)"
  unfolding strings_Split_def by (rule genSplit_char) simp

lemma strings_Split_a_b: "strings_Split ''a,,b'' '','' = [''a'', [], ''b'']"
  by (simp add: strings_Split_def strings_HasPrefix_def)

lemma strings_Split_empty: "strings_Split [] sep = [[]]"
  by (simp add: strings_Split_def)

section \<open>The extra-resource injector\<close>

lemma foldl_append_resources:
  "foldl (\<lambda>m resource.
            if resource \<noteq> []
            then m\<lparr>Sequences := Sequences m @ [\<lparr>Clips = [\<lparr>Type = ''source'', Path = resource\<rparr>]\<rparr>]\<rparr>
            else m) m tokens
   = m\<lparr>Sequences := Sequences m @
        map (\<lambda>token. \<lparr>Clips = [\<lparr>Type = ''source'', Path = token\<rparr>]\<rparr>)
          (filter (\<lambda>token. token \<noteq> []) tokens)\<rparr>"
  by (induction tokens arbitrary: m) simp_all

lemma appendExtraResources_eq:
  "appendExtraResources r config m =
     m\<lparr>Sequences := Sequences m @
        map (\<lambda>token. \<lparr>Clips = [\<lparr>Type = ''source'', Path = token\<rparr>]\<rparr>)
          (filter (\<lambda>token. token \<noteq> [])
             (strings_Split (Values_Get (URL_Query r) (ExtraResourcesToken config)) '',''))\<rparr>"
  by (simp add: appendExtraResources_def foldl_append_resources)

text \<open>
  Claim C7. The value of the configured query parameter is cut at its commas (the pieces hold
  no comma and, joined by commas, give the value back). For each non-empty piece, in order,
  one sequence of one clip of type \<open>source\<close> whose path is the piece is appended after the
  sequences the mapping already holds. The value \<open>a,,b\<close> appends two sequences, for \<open>a\<close> and
  for \<open>b\<close>; an absent parameter appends nothing; the filter patterns of the configuration
  have no influence on what is appended.
\<close>

theorem appendExtraResources_injects:
  "concat (map (\<lambda>t. t @ '','')
       (strings_Split (Values_Get (URL_Query r) (ExtraResourcesToken config)) '',''))
     = Values_Get (URL_Query r) (ExtraResourcesToken config) @ '',''
   \<and> (\<forall>t \<in> set (strings_Split (Values_Get (URL_Query r) (ExtraResourcesToken config)) '','').
         CHR '','' \<notin> set t)
   \<and> appendExtraResources r config m =
         m\<lparr>Sequences := Sequences m @
            map (\<lambda>token. \<lparr>Clips = [\<lparr>Type = ''source'', Path = token\<rparr>]\<rparr>)
              (filter (\<lambda>token. token \<noteq> [])
                 (strings_Split (Values_Get (URL_Query r) (ExtraResourcesToken config)) '',''))\<rparr>
   \<and> (URL_Query r (ExtraResourcesToken config) = [''a,,b''] \<longrightarrow>
         Sequences (appendExtraResources r config m) =
           Sequences m @ [\<lparr>Clips = [\<lparr>Type = ''source'', Path = ''a''\<rparr>]\<rparr>,
                          \<lparr>Clips = [\<lparr>Type = ''source'', Path = ''b''\<rparr>]\<rparr>])
   \<and> (URL_Query r (ExtraResourcesToken config) = [] \<longrightarrow> appendExtraResources r config m = m)
   \<and> appendExtraResources r (config\<lparr>MapRegexFilter := f, MapRegexHDFilter := g\<rparr>) m =
         appendExtraResources r config m"
proof (intro conjI)
  show "concat (map (\<lambda>t. t @ '','')
       (strings_Split (Values_Get (URL_Query r) (ExtraResourcesToken config)) '',''))
     = Values_Get (URL_Query r) (ExtraResourcesToken config) @ '',''"
    using strings_Split_char [of "CHR '',''"] by simp
  show "\<forall>t \<in> set (strings_Split (Values_Get (URL_Query r) (ExtraResourcesToken config)) '','').
         CHR '','' \<notin> set t"
    using strings_Split_char [of "CHR '',''"] by simp
  show "appendExtraResources r config m =
         m\<lparr>Sequences := Sequences m @
            map (\<lambda>token. \<lparr>Clips = [\<lparr>Type = ''source'', Path = token\<rparr>]\<rparr>)
              (filter (\<lambda>token. token \<noteq> [])
                 (strings_Split (Values_Get (URL_Query r) (ExtraResourcesToken config)) '',''))\<rparr>"
    by (rule appendExtraResources_eq)
  show "URL_Query r (ExtraResourcesToken config) = [''a,,b''] \<longrightarrow>
         Sequences (appendExtraResources r config m) =
           Sequences m @ [\<lparr>Clips = [\<lparr>Type = ''source'', Path = ''a''\<rparr>]\<rparr>,
                          \<lparr>Clips = [\<lparr>Type = ''source'', Path = ''b''\<rparr>]\<rparr>]"
    by (simp add: appendExtraResources_eq Values_Get_def strings_Split_a_b)
  show "URL_Query r (ExtraResourcesToken config) = [] \<longrightarrow> appendExtraResources r config m = m"
    by (simp add: appendExtraResources_eq Values_Get_def strings_Split_empty)
  show "appendExtraResources r (config\<lparr>MapRegexFilter := f, MapRegexHDFilter := g\<rparr>) m =
         appendExtraResources r config m"
    by (simp add: appendExtraResources_def)
qed

theorem appendExtraResources_injects_witness:
  "Sequences (appendExtraResources (sampleRequest [''a,,b'']) sampleConfig \<lparr>Sequences = []\<rparr>) =
     [\<lparr>Clips = [\<lparr>Type = ''source'', Path = ''a''\<rparr>]\<rparr>, \<lparr>Clips = [\<lparr>Type = ''source'', Path = ''b''\<rparr>]\<rparr>]
   \<and> appendExtraResources (sampleRequest []) sampleConfig \<lparr>Sequences = []\<rparr> = \<lparr>Sequences = []\<rparr>
   \<and> concat (map (\<lambda>t. t @ '','') (strings_Split ''a,,b'' '','')) = ''a,,b,''"
  using appendExtraResources_injects [of "sampleRequest [''a,,b'']" sampleConfig "\<lparr>Sequences = []\<rparr>"]
    appendExtraResources_injects [of "sampleRequest []" sampleConfig "\<lparr>Sequences = []\<rparr>"]
  by (simp add: sampleRequest_def sampleConfig_def Values_Get_def strings_Split_a_b
      strings_Split_empty)

section \<open>Listing with retries\<close>

lemma collect_eq:
  "collect e filterRegex objs sequences =
     sequences @
     map (\<lambda>obj. \<lparr>Clips = [\<lparr>Type = ''source'', Path = ''/'' @ Bucket obj @ ''/'' @ Name obj\<rparr>]\<rparr>)
       (filter (\<lambda>obj. fst (regexp_MatchString e filterRegex (filepath_Base (Name obj)))) objs)"
  by (induction objs arbitrary: sequences) (simp_all add: Let_def)

lemma tryListing_done:
  "i < k \<Longrightarrow>
   snd (Objects e (length (listCalls w) + i) \<lparr>Prefix = p, Delimiter = ''/''\<rparr>) = IteratorDone \<Longrightarrow>
   (\<forall>j<i. snd (Objects e (length (listCalls w) + j) \<lparr>Prefix = p, Delimiter = ''/''\<rparr>) \<noteq> IteratorDone) \<Longrightarrow>
   tryListing e re p k err w =
     ((collect e re (fst (Objects e (length (listCalls w) + i) \<lparr>Prefix = p, Delimiter = ''/''\<rparr>)) [],
       None),
      w\<lparr>listCalls := listCalls w @ replicate (Suc i) \<lparr>Prefix = p, Delimiter = ''/''\<rparr>\<rparr>)"
proof (induction k arbitrary: i w err)
  case 0
  then show ?case by simp
next
  case (Suc k)
  let ?q = "\<lparr>Prefix = p, Delimiter = ''/''\<rparr>"
  let ?w1 = "w\<lparr>listCalls := listCalls w @ [?q]\<rparr>"
  obtain objs err' where o: "Objects e (length (listCalls w)) ?q = (objs, err')"
    by (cases "Objects e (length (listCalls w)) ?q")
  show ?case
  proof (cases i)
    case 0
    with Suc.prems o have "err' = IteratorDone" by simp
    with o 0 show ?thesis by (simp add: callObjects_def)
  next
    case (Suc i')
    with Suc.prems(3) o have ne: "err' \<noteq> IteratorDone" by force
    have len: "length (listCalls ?w1) = Suc (length (listCalls w))" by simp
    from Suc.prems Suc have a: "i' < k" by simp
    from Suc.prems(2) Suc
    have b: "snd (Objects e (length (listCalls ?w1) + i') ?q) = IteratorDone" by simp
    have c: "\<forall>j<i'. snd (Objects e (length (listCalls ?w1) + j) ?q) \<noteq> IteratorDone"
    proof (intro allI impI)
      fix j assume "j < i'"
      then have "Suc j < i" using Suc by simp
      with Suc.prems(3) show "snd (Objects e (length (listCalls ?w1) + j) ?q) \<noteq> IteratorDone"
        by (metis add_Suc_shift len)
    qed
    from Suc.IH [OF a b c, of "Some err'"] o ne Suc show ?thesis
      by (simp add: callObjects_def replicate_append_same)
  qed
qed

lemma tryListing_exhausted:
  "(\<forall>j<k. snd (Objects e (length (listCalls w) + j) \<lparr>Prefix = p, Delimiter = ''/''\<rparr>) \<noteq> IteratorDone) \<Longrightarrow>
   tryListing e re p k err w =
     (([], if k = 0 then err
           else Some (snd (Objects e (length (listCalls w) + (k - 1)) \<lparr>Prefix = p, Delimiter = ''/''\<rparr>))),
      w\<lparr>listCalls := listCalls w @ replicate k \<lparr>Prefix = p, Delimiter = ''/''\<rparr>\<rparr>)"
proof (induction k arbitrary: w err)
  case 0
  then show ?case by simp
next
  case (Suc k)
  let ?q = "\<lparr>Prefix = p, Delimiter = ''/''\<rparr>"
  let ?w1 = "w\<lparr>listCalls := listCalls w @ [?q]\<rparr>"
  obtain objs err' where o: "Objects e (length (listCalls w)) ?q = (objs, err')"
    by (cases "Objects e (length (listCalls w)) ?q")
  from Suc.prems o have ne: "err' \<noteq> IteratorDone" by force
  have len: "length (listCalls ?w1) = Suc (length (listCalls w))" by simp
  have c: "\<forall>j<k. snd (Objects e (length (listCalls ?w1) + j) ?q) \<noteq> IteratorDone"
  proof (intro allI impI)
    fix j assume "j < k"
    then have "Suc j < Suc k" by simp
    with Suc.prems show "snd (Objects e (length (listCalls ?w1) + j) ?q) \<noteq> IteratorDone"
      by (metis add_Suc_shift len)
  qed
  have step: "tryListing e re p (Suc k) err w = tryListing e re p k (Some err') ?w1"
    using o ne by (simp add: callObjects_def)
  have ih: "tryListing e re p k (Some err') ?w1 =
      (([], if k = 0 then Some err'
            else Some (snd (Objects e (length (listCalls ?w1) + (k - 1)) ?q))),
       ?w1\<lparr>listCalls := listCalls ?w1 @ replicate k ?q\<rparr>)"
    by (rule Suc.IH [OF c])
  have err: "(if k = 0 then Some err'
              else Some (snd (Objects e (length (listCalls ?w1) + (k - 1)) ?q))) =
             Some (snd (Objects e (length (listCalls w) + (Suc k - 1)) ?q))"
    using o by (cases k) simp_all
  have wd: "?w1\<lparr>listCalls := listCalls ?w1 @ replicate k ?q\<rparr> =
            w\<lparr>listCalls := listCalls w @ replicate (Suc k) ?q\<rparr>"
    by (simp add: replicate_append_same)
  show ?case
    unfolding step ih err wd by simp
qed

lemma tryListing_calls:
  "\<exists>n. (0 < k \<longrightarrow> 1 \<le> n) \<and> n \<le> k \<and>
     listCalls (snd (tryListing e re p k err w)) =
       listCalls w @ replicate n \<lparr>Prefix = p, Delimiter = ''/''\<rparr>"
proof (induction k arbitrary: w err)
  case 0
  show ?case by simp
next
  case (Suc k)
  let ?q = "\<lparr>Prefix = p, Delimiter = ''/''\<rparr>"
  let ?w1 = "w\<lparr>listCalls := listCalls w @ [?q]\<rparr>"
  obtain objs err' where o: "Objects e (length (listCalls w)) ?q = (objs, err')"
    by (cases "Objects e (length (listCalls w)) ?q")
  show ?case
  proof (cases "err' = IteratorDone")
    case True
    with o have "listCalls (snd (tryListing e re p (Suc k) err w)) = listCalls w @ replicate 1 ?q"
      by (simp add: callObjects_def)
    then show ?thesis by (intro exI [of _ 1]) simp
  next
    case False
    from Suc.IH [of "Some err'" ?w1] obtain n where
      n: "n \<le> k" "listCalls (snd (tryListing e re p k (Some err') ?w1)) = listCalls ?w1 @ replicate n ?q"
      by blast
    with o False have "listCalls (snd (tryListing e re p (Suc k) err w)) = listCalls w @ replicate (Suc n) ?q"
      by (simp add: callObjects_def replicate_append_same)
    with n(1) show ?thesis by (intro exI [of _ "Suc n"]) simp
  qed
qed

text \<open>
  Claim C4. The listing calls of one expansion are its attempts, all with the same query.
  If attempt \<open>i\<close> (of the five possible ones) is the first that ends with the sentinel
  \<open>iterator.Done\<close>, the expansion succeeds after \<open>i + 1\<close> attempts with the sequences of the
  objects that this attempt listed and the filter kept, and with nothing of the attempts
  before it. If none of five attempts ends with the sentinel, the expansion returns no
  sequence and the error of the fifth attempt. Between one and five attempts are made.
\<close>

theorem expandPrefix_retry:
  fixes e :: env and prefix :: string and config :: Config and w :: world
  defines "q \<equiv> \<lparr>Prefix = snd (selectFilter config prefix), Delimiter = ''/''\<rparr>"
  defines "attempt \<equiv> \<lambda>i. Objects e (length (listCalls w) + i) q"
  defines "kept \<equiv> \<lambda>objs.
     map (\<lambda>obj. \<lparr>Clips = [\<lparr>Type = ''source'', Path = ''/'' @ Bucket obj @ ''/'' @ Name obj\<rparr>]\<rparr>)
       (filter (\<lambda>obj. fst (regexp_MatchString e (fst (selectFilter config prefix))
                              (filepath_Base (Name obj)))) objs)"
  shows "(\<forall>i<5. snd (attempt i) = IteratorDone \<and> (\<forall>j<i. snd (attempt j) \<noteq> IteratorDone) \<longrightarrow>
            expandPrefix e prefix config w =
              ((kept (fst (attempt i)), None),
               w\<lparr>listCalls := listCalls w @ replicate (Suc i) q\<rparr>))
       \<and> ((\<forall>j<5. snd (attempt j) \<noteq> IteratorDone) \<longrightarrow>
            expandPrefix e prefix config w =
              (([], Some (snd (attempt 4))), w\<lparr>listCalls := listCalls w @ replicate 5 q\<rparr>))
       \<and> (\<exists>n. 1 \<le> n \<and> n \<le> 5 \<and>
              listCalls (snd (expandPrefix e prefix config w)) = listCalls w @ replicate n q)"
proof -
  obtain re p where sf: "selectFilter config prefix = (re, p)"
    by (cases "selectFilter config prefix")
  have ex: "expandPrefix e prefix config w = tryListing e re p 5 None w"
    by (simp add: expandPrefix_def sf maxTry_def)
  have q: "q = \<lparr>Prefix = p, Delimiter = ''/''\<rparr>" by (simp add: q_def sf)
  have "\<forall>i<5. snd (attempt i) = IteratorDone \<and> (\<forall>j<i. snd (attempt j) \<noteq> IteratorDone) \<longrightarrow>
            expandPrefix e prefix config w =
              ((kept (fst (attempt i)), None),
               w\<lparr>listCalls := listCalls w @ replicate (Suc i) q\<rparr>)"
  proof (intro allI impI)
    fix i :: nat
    assume i: "i < 5"
      and d: "snd (attempt i) = IteratorDone \<and> (\<forall>j<i. snd (attempt j) \<noteq> IteratorDone)"
    from d have d1: "snd (Objects e (length (listCalls w) + i) \<lparr>Prefix = p, Delimiter = ''/''\<rparr>) = IteratorDone"
      and d2: "\<forall>j<i. snd (Objects e (length (listCalls w) + j) \<lparr>Prefix = p, Delimiter = ''/''\<rparr>) \<noteq> IteratorDone"
      by (simp_all add: attempt_def q)
    from tryListing_done [OF i d1 d2, of re None]
    show "expandPrefix e prefix config w =
              ((kept (fst (attempt i)), None),
               w\<lparr>listCalls := listCalls w @ replicate (Suc i) q\<rparr>)"
      by (simp add: ex kept_def attempt_def q collect_eq sf)
  qed
  moreover have "(\<forall>j<5. snd (attempt j) \<noteq> IteratorDone) \<longrightarrow>
            expandPrefix e prefix config w =
              (([], Some (snd (attempt 4))), w\<lparr>listCalls := listCalls w @ replicate 5 q\<rparr>)"
  proof
    assume "\<forall>j<5. snd (attempt j) \<noteq> IteratorDone"
    then have "\<forall>j<5. snd (Objects e (length (listCalls w) + j) \<lparr>Prefix = p, Delimiter = ''/''\<rparr>) \<noteq> IteratorDone"
      by (simp add: attempt_def q)
    from tryListing_exhausted [OF this, of re None]
    show "expandPrefix e prefix config w =
              (([], Some (snd (attempt 4))), w\<lparr>listCalls := listCalls w @ replicate 5 q\<rparr>)"
      by (simp add: ex attempt_def q)
  qed
  moreover have "\<exists>n. 1 \<le> n \<and> n \<le> 5 \<and>
              listCalls (snd (expandPrefix e prefix config w)) = listCalls w @ replicate n q"
    using tryListing_calls [of 5 e re p None w] by (simp add: ex q)
  ultimately show ?thesis by blast
qed

lemma selectFilter_sample: "selectFilter sampleConfig ''videos/asset'' = (''p.mp4'', ''videos/asset'')"
  by code_simp

theorem expandPrefix_retry_witness:
  "expandPrefix (sampleEnv flakyObjects) ''videos/asset'' sampleConfig world0 =
     (([\<lparr>Clips = [\<lparr>Type = ''source'', Path = ''/media/videos/asset_720p.mp4''\<rparr>]\<rparr>], None),
      world0\<lparr>listCalls := replicate 2 \<lparr>Prefix = ''videos/asset'', Delimiter = ''/''\<rparr>\<rparr>)
   \<and> expandPrefix (sampleEnv brokenObjects) ''videos/asset'' sampleConfig world0 =
     (([], Some (Failure ''xxxxx'')),
      world0\<lparr>listCalls := replicate 5 \<lparr>Prefix = ''videos/asset'', Delimiter = ''/''\<rparr>\<rparr>)"
proof -
  have m: "fst (regexp_MatchString (sampleEnv flakyObjects) ''p.mp4''
              (filepath_Base ''videos/asset_720p.mp4''))"
    by code_simp
  from expandPrefix_retry [where e = "sampleEnv flakyObjects" and config = sampleConfig
      and prefix = "''videos/asset''" and w = world0, THEN conjunct1, THEN spec, of 1]
  have "expandPrefix (sampleEnv flakyObjects) ''videos/asset'' sampleConfig world0 =
     (([\<lparr>Clips = [\<lparr>Type = ''source'', Path = ''/media/videos/asset_720p.mp4''\<rparr>]\<rparr>], None),
      world0\<lparr>listCalls := replicate 2 \<lparr>Prefix = ''videos/asset'', Delimiter = ''/''\<rparr>\<rparr>)"
    using m by (simp add: selectFilter_sample sampleEnv_def flakyObjects_def world0_def eval_nat_numeral)
  moreover
  from expandPrefix_retry [where e = "sampleEnv brokenObjects" and config = sampleConfig
      and prefix = "''videos/asset''" and w = world0, THEN conjunct2, THEN conjunct1]
  have "expandPrefix (sampleEnv brokenObjects) ''videos/asset'' sampleConfig world0 =
     (([], Some (Failure ''xxxxx'')),
      world0\<lparr>listCalls := replicate 5 \<lparr>Prefix = ''videos/asset'', Delimiter = ''/''\<rparr>\<rparr>)"
    by (simp add: selectFilter_sample sampleEnv_def brokenObjects_def world0_def eval_nat_numeral)
  ultimately show ?thesis by blast
qed

subsection \<open>The filter selector\<close>

lemma strings_Replace_first:
  assumes "strings_Contains s old"
  shows "\<exists>a b. s = a @ old @ b \<and>
           (\<forall>i<length a. \<not> strings_HasPrefix (drop i s) old) \<and>
           strings_Replace s old new 1 = a @ new @ b"
proof -
  from assms obtain j where j: "strings_Index s old = Some j"
    by (auto simp: strings_Contains_def)
  let ?a = "take j s" and ?b = "drop (j + length old) s"
  from strings_Index_Some [OF j] have len: "length ?a = j" by simp
  have "s = ?a @ old @ ?b" by (rule strings_Index_split [OF j])
  moreover have "\<forall>i<length ?a. \<not> strings_HasPrefix (drop i s) old"
    using strings_Index_first [OF j] len by (simp add: strings_HasPrefix_def)
  moreover have "strings_Replace s old new 1 = ?a @ new @ ?b"
    using j by (simp add: One_nat_def)
  ultimately show ?thesis by blast
qed

text \<open>
  Claim C8. A prefix holds the marker \<open>__HD\<close> exactly when it is \<open>a @ __HD @ b\<close> for some
  \<open>a\<close> and \<open>b\<close>. For such a prefix the high-definition pattern is selected and the prefix
  listed is \<open>a @ b\<close> for the decomposition at the first occurrence of the marker (no
  occurrence starts inside \<open>a\<close>), so the first occurrence is removed and nothing else. For
  a prefix without the marker the standard pattern is selected and the prefix is unchanged.
  The expansion matches with the selected pattern, and every listing call it makes carries
  the selected prefix and the delimiter \<open>/\<close>.
\<close>

theorem expandPrefix_marker:
  "(strings_Contains prefix ''__HD'' \<longleftrightarrow> (\<exists>a b. prefix = a @ ''__HD'' @ b))
   \<and> (strings_Contains prefix ''__HD'' \<longrightarrow>
        (\<exists>a b. prefix = a @ ''__HD'' @ b \<and>
               (\<forall>i<length a. \<not> strings_HasPrefix (drop i prefix) ''__HD'') \<and>
               selectFilter config prefix = (MapRegexHDFilter config, a @ b)))
   \<and> (\<not> strings_Contains prefix ''__HD'' \<longrightarrow>
        selectFilter config prefix = (MapRegexFilter config, prefix))
   \<and> expandPrefix e prefix config w =
        tryListing e (fst (selectFilter config prefix)) (snd (selectFilter config prefix))
          maxTry None w
   \<and> (\<exists>n. 1 \<le> n \<and> n \<le> 5 \<and>
          listCalls (snd (expandPrefix e prefix config w)) =
            listCalls w @
            replicate n \<lparr>Prefix = snd (selectFilter config prefix), Delimiter = ''/''\<rparr>)"
proof (intro conjI)
  show "strings_Contains prefix ''__HD'' \<longleftrightarrow> (\<exists>a b. prefix = a @ ''__HD'' @ b)"
    by (rule strings_Contains_iff)
  show "strings_Contains prefix ''__HD'' \<longrightarrow>
        (\<exists>a b. prefix = a @ ''__HD'' @ b \<and>
               (\<forall>i<length a. \<not> strings_HasPrefix (drop i prefix) ''__HD'') \<and>
               selectFilter config prefix = (MapRegexHDFilter config, a @ b))"
  proof
    assume c: "strings_Contains prefix ''__HD''"
    from strings_Replace_first [OF c, of "[]"] obtain a b where
      "prefix = a @ ''__HD'' @ b"
      "\<forall>i<length a. \<not> strings_HasPrefix (drop i prefix) ''__HD''"
      "strings_Replace prefix ''__HD'' [] 1 = a @ b"
      by auto
    with c show "\<exists>a b. prefix = a @ ''__HD'' @ b \<and>
               (\<forall>i<length a. \<not> strings_HasPrefix (drop i prefix) ''__HD'') \<and>
               selectFilter config prefix = (MapRegexHDFilter config, a @ b)"
      unfolding selectFilter_def by (intro exI [of _ a] exI [of _ b]) simp
  qed
  show "\<not> strings_Contains prefix ''__HD'' \<longrightarrow>
        selectFilter config prefix = (MapRegexFilter config, prefix)"
    by (simp add: selectFilter_def)
  show "expandPrefix e prefix config w =
        tryListing e (fst (selectFilter config prefix)) (snd (selectFilter config prefix))
          maxTry None w"
    by (simp add: expandPrefix_def split: prod.splits)
  show "\<exists>n. 1 \<le> n \<and> n \<le> 5 \<and>
          listCalls (snd (expandPrefix e prefix config w)) =
            listCalls w @
            replicate n \<lparr>Prefix = snd (selectFilter config prefix), Delimiter = ''/''\<rparr>"
  proof -
    obtain re p where sf: "selectFilter config prefix = (re, p)"
      by (cases "selectFilter config prefix")
    from tryListing_calls [of 5 e re p None w] show ?thesis
      by (simp add: expandPrefix_def maxTry_def sf)
  qed
qed

theorem expandPrefix_marker_witness:
  "strings_Contains ''videos/a__HD__HD'' ''__HD''
   \<and> fst (selectFilter sampleConfig ''videos/a__HD__HD'') = ''720p.mp4''
   \<and> snd (selectFilter sampleConfig ''videos/a__HD__HD'') = ''videos/a__HD''
   \<and> \<not> strings_Contains ''videos/asset'' ''__HD''
   \<and> selectFilter sampleConfig ''videos/asset'' = (''p.mp4'', ''videos/asset'')"
proof -
  have c: "strings_Contains ''videos/a__HD__HD'' ''__HD''" by code_simp
  have n: "\<not> strings_Contains ''videos/asset'' ''__HD''" by code_simp
  have s: "snd (selectFilter sampleConfig ''videos/a__HD__HD'') = ''videos/a__HD''" by code_simp
  from expandPrefix_marker [of "''videos/a__HD__HD''" sampleConfig, THEN conjunct2, THEN conjunct1] c
  have "\<exists>a b. selectFilter sampleConfig ''videos/a__HD__HD'' = (MapRegexHDFilter sampleConfig, a @ b)"
    by blast
  then have "fst (selectFilter sampleConfig ''videos/a__HD__HD'') = MapRegexHDFilter sampleConfig"
    by auto
  moreover
  from expandPrefix_marker [of "''videos/asset''" sampleConfig, THEN conjunct2, THEN conjunct2,
      THEN conjunct1] n
  have "selectFilter sampleConfig ''videos/asset'' = (MapRegexFilter sampleConfig, ''videos/asset'')"
    by blast
  ultimately show ?thesis using c n s by (simp add: sampleConfig_def)
qed

subsection \<open>Patterns that do not compile\<close>

lemma tryListing_Compile:
  "snd (fst (tryListing (e\<lparr>Compile := c\<rparr>) re p k err w)) = snd (fst (tryListing e re p k err w))
   \<and> snd (tryListing (e\<lparr>Compile := c\<rparr>) re p k err w) = snd (tryListing e re p k err w)"
  by (induction k arbitrary: err w) (simp_all add: callObjects_def Let_def split: prod.splits)

lemma collect_invalid:
  "Compile e re = None \<Longrightarrow> collect e re objs sequences = sequences"
  by (induction objs arbitrary: sequences) (simp_all add: regexp_MatchString_def)

lemma tryListing_invalid:
  "Compile e re = None \<Longrightarrow> fst (fst (tryListing e re p k err w)) = []"
  by (induction k arbitrary: err w)
     (simp_all add: callObjects_def collect_invalid split: prod.splits)

lemma expandPrefix_Compile:
  "snd (fst (expandPrefix (e\<lparr>Compile := c\<rparr>) prefix config w)) = snd (fst (expandPrefix e prefix config w))
   \<and> snd (expandPrefix (e\<lparr>Compile := c\<rparr>) prefix config w) = snd (expandPrefix e prefix config w)"
  by (simp add: expandPrefix_def tryListing_Compile split: prod.splits)

lemma expandAll_Compile:
  "snd (fst (expandAll (e\<lparr>Compile := c\<rparr>) config ps m w)) = snd (fst (expandAll e config ps m' w))
   \<and> snd (expandAll (e\<lparr>Compile := c\<rparr>) config ps m w) = snd (expandAll e config ps m' w)"
proof (induction ps arbitrary: m m' w)
  case Nil
  show ?case by simp
next
  case (Cons p ps)
  obtain s1 e1 w1 where a: "expandPrefix (e\<lparr>Compile := c\<rparr>) p config w = ((s1, e1), w1)"
    by (metis surj_pair)
  obtain s2 e2 w2 where b: "expandPrefix e p config w = ((s2, e2), w2)"
    by (metis surj_pair)
  from expandPrefix_Compile [where e = e and c = c and prefix = p and config = config and w = w] a b have eq: "e1 = e2" "w1 = w2" by simp_all
  show ?case
  proof (cases e2)
    case None
    with a b eq Cons.IH [of "m\<lparr>Sequences := Sequences m @ s1\<rparr>" w2 "m'\<lparr>Sequences := Sequences m' @ s2\<rparr>"]
    show ?thesis by simp
  next
    case (Some x)
    with a b eq show ?thesis by simp
  qed
qed

lemma tryListing_reaches_done:
  assumes "\<exists>i<k. snd (Objects e (length (listCalls w) + i) \<lparr>Prefix = p, Delimiter = ''/''\<rparr>) = IteratorDone"
  shows "snd (fst (tryListing e re p k err w)) = None"
proof -
  let ?P = "\<lambda>i. i < k \<and> snd (Objects e (length (listCalls w) + i) \<lparr>Prefix = p, Delimiter = ''/''\<rparr>) = IteratorDone"
  from assms have "\<exists>i. ?P i" by blast
  then obtain i where i: "?P i" "\<forall>j<i. \<not> ?P j"
    using exists_least_iff [of ?P] by blast
  then have "\<forall>j<i. snd (Objects e (length (listCalls w) + j) \<lparr>Prefix = p, Delimiter = ''/''\<rparr>) \<noteq> IteratorDone"
    by auto
  with i(1) tryListing_done [of i k e w p re err] show ?thesis by simp
qed

text \<open>
  Claim C9. When the selected filter pattern does not compile, the expansion returns no
  sequence: every listed object is excluded. The pattern does not make the expansion fail:
  the expansion succeeds, with no sequence, whenever one of its five attempts ends with the
  sentinel, and the error and the world that the expansion returns, and the error that
  \<open>getPrefixMapping\<close> returns, are the same with any other behaviour of the compiler.
\<close>

theorem expandPrefix_malformed_pattern:
  "Compile e (fst (selectFilter config prefix)) = None \<Longrightarrow>
     fst (fst (expandPrefix e prefix config w)) = []
     \<and> ((\<exists>i<5. snd (Objects e (length (listCalls w) + i)
                      \<lparr>Prefix = snd (selectFilter config prefix), Delimiter = ''/''\<rparr>) = IteratorDone)
          \<longrightarrow> fst (expandPrefix e prefix config w) = ([], None))
     \<and> snd (fst (expandPrefix e prefix config w)) =
         snd (fst (expandPrefix (e\<lparr>Compile := c\<rparr>) prefix config w))
     \<and> snd (expandPrefix e prefix config w) = snd (expandPrefix (e\<lparr>Compile := c\<rparr>) prefix config w)
     \<and> snd (fst (getPrefixMapping e prefix config w)) =
         snd (fst (getPrefixMapping (e\<lparr>Compile := c\<rparr>) prefix config w))"
proof -
  assume inv: "Compile e (fst (selectFilter config prefix)) = None"
  obtain re p where sf: "selectFilter config prefix = (re, p)"
    by (cases "selectFilter config prefix")
  have ex: "expandPrefix e prefix config w = tryListing e re p 5 None w"
    by (simp add: expandPrefix_def sf maxTry_def)
  from inv sf have empty: "fst (fst (expandPrefix e prefix config w)) = []"
    by (simp add: ex tryListing_invalid)
  moreover have "(\<exists>i<5. snd (Objects e (length (listCalls w) + i)
                      \<lparr>Prefix = snd (selectFilter config prefix), Delimiter = ''/''\<rparr>) = IteratorDone)
          \<longrightarrow> fst (expandPrefix e prefix config w) = ([], None)"
  proof
    assume "\<exists>i<5. snd (Objects e (length (listCalls w) + i)
                      \<lparr>Prefix = snd (selectFilter config prefix), Delimiter = ''/''\<rparr>) = IteratorDone"
    then have "\<exists>i<5. snd (Objects e (length (listCalls w) + i) \<lparr>Prefix = p, Delimiter = ''/''\<rparr>) = IteratorDone"
      by (simp add: sf)
    from tryListing_reaches_done [OF this, of re None]
    have "snd (fst (expandPrefix e prefix config w)) = None" by (simp add: ex)
    with empty show "fst (expandPrefix e prefix config w) = ([], None)"
      by (simp add: prod_eq_iff)
  qed
  moreover note expandPrefix_Compile [where e = e and c = c and prefix = prefix and config = config and w = w]
  moreover have "snd (fst (getPrefixMapping e prefix config w)) =
         snd (fst (getPrefixMapping (e\<lparr>Compile := c\<rparr>) prefix config w))"
    using expandAll_Compile [where e = e and c = c and config = config and ps = "getPrefixes prefix config"
      and m = "\<lparr>Sequences = []\<rparr>" and w = w and m' = "\<lparr>Sequences = []\<rparr>"]
    by (simp add: getPrefixMapping_def)
  ultimately show ?thesis by simp
qed

theorem expandPrefix_malformed_pattern_witness:
  "Compile (sampleEnv flakyObjects)
       (fst (selectFilter (sampleConfig\<lparr>MapRegexFilter := ''(''\<rparr>) ''videos/asset'')) = None
   \<and> fst (expandPrefix (sampleEnv flakyObjects) ''videos/asset''
            (sampleConfig\<lparr>MapRegexFilter := ''(''\<rparr>) world0) = ([], None)"
proof -
  have sf: "selectFilter (sampleConfig\<lparr>MapRegexFilter := ''(''\<rparr>) ''videos/asset'' = (''('', ''videos/asset'')"
    by code_simp
  have inv: "Compile (sampleEnv flakyObjects)
       (fst (selectFilter (sampleConfig\<lparr>MapRegexFilter := ''(''\<rparr>) ''videos/asset'')) = None"
    by (simp add: sf sampleEnv_def sampleCompile_def)
  have d: "\<exists>i<5. snd (Objects (sampleEnv flakyObjects) (length (listCalls world0) + i)
       \<lparr>Prefix = snd (selectFilter (sampleConfig\<lparr>MapRegexFilter := ''(''\<rparr>) ''videos/asset''),
          Delimiter = ''/''\<rparr>) = IteratorDone"
    by (intro exI [of _ 1]) (simp add: sampleEnv_def flakyObjects_def)
  from expandPrefix_malformed_pattern [OF inv, of world0] d inv show ?thesis by blast
qed

section \<open>The shape of the clip paths\<close>

subsection \<open>Cutting a path at its first two separators\<close>

lemma strings_Index_char_append:
  "c \<notin> set a \<Longrightarrow> strings_Index (a @ c # r) [c] = Some (length a)"
  by (induction a) (auto simp: strings_HasPrefix_def)

lemma strings_Index_char_absent:
  "c \<notin> set s \<Longrightarrow> strings_Index s [c] = None"
  by (induction s) (auto simp: strings_HasPrefix_def)

lemma strings_SplitN_3_two:
  assumes "c \<notin> set a" and "c \<notin> set b"
  shows "strings_SplitN (a @ c # b @ c # k) [c] 3 = [a, b, k]"
proof -
  have "min (3 - 1) (length (a @ c # b @ c # k)) = Suc (Suc 0)" by simp
  then have "strings_SplitN (a @ c # b @ c # k) [c] 3 = genSplit (a @ c # b @ c # k) [c] (Suc (Suc 0))"
    by (simp add: strings_SplitN_def)
  also have "\<dots> = [a, b, k]"
    using strings_Index_char_append [OF assms(1), of "b @ c # k"]
      strings_Index_char_append [OF assms(2), of k]
    by simp
  finally show ?thesis .
qed

lemma genSplit_few:
  assumes "length (filter (\<lambda>x. x = c) s) < 2"
  shows "length (genSplit s [c] n) < 3"
proof (cases "c \<in> set s")
  case False
  then have "strings_Index s [c] = None" by (rule strings_Index_char_absent)
  then show ?thesis by (cases n) simp_all
next
  case True
  then obtain a r where s: "s = a @ c # r" "c \<notin> set a"
    by (meson split_list_first)
  with assms have "filter (\<lambda>x. x = c) r = []" by (simp add: filter_empty_conv)
  then have r: "c \<notin> set r" by (auto simp: filter_empty_conv)
  have i: "strings_Index s [c] = Some (length a)"
    unfolding s(1) by (rule strings_Index_char_append [OF s(2)])
  have i2: "strings_Index r [c] = None" by (rule strings_Index_char_absent [OF r])
  show ?thesis
  proof (cases n)
    case 0
    then show ?thesis by simp
  next
    case (Suc n')
    with i i2 s(1) show ?thesis by (cases n') simp_all
  qed
qed

lemma strings_SplitN_few:
  "length (filter (\<lambda>x. x = c) s) < 2 \<Longrightarrow> length (strings_SplitN s [c] 3) \<noteq> 3"
  using genSplit_few [of c s "min (3 - 1) (length s)"] by (simp add: strings_SplitN_def)

subsection \<open>The clips of an expansion\<close>

lemma tryListing_sequences:
  "seq \<in> set (fst (fst (tryListing e re p k err w))) \<Longrightarrow>
   \<exists>i<k. seq \<in> set (collect e re
            (fst (Objects e (length (listCalls w) + i) \<lparr>Prefix = p, Delimiter = ''/''\<rparr>)) [])"
proof (induction k arbitrary: err w)
  case 0
  then show ?case by simp
next
  case (Suc k)
  let ?q = "\<lparr>Prefix = p, Delimiter = ''/''\<rparr>"
  let ?w1 = "w\<lparr>listCalls := listCalls w @ [?q]\<rparr>"
  obtain objs err' where o: "Objects e (length (listCalls w)) ?q = (objs, err')"
    by (cases "Objects e (length (listCalls w)) ?q")
  show ?case
  proof (cases "err' = IteratorDone")
    case True
    with Suc.prems o have "seq \<in> set (collect e re (fst (Objects e (length (listCalls w) + 0) ?q)) [])"
      by (simp add: callObjects_def)
    then show ?thesis by blast
  next
    case False
    with Suc.prems o have "seq \<in> set (fst (fst (tryListing e re p k (Some err') ?w1)))"
      by (simp add: callObjects_def)
    from Suc.IH [OF this] obtain i where
      i: "i < k" "seq \<in> set (collect e re (fst (Objects e (length (listCalls ?w1) + i) ?q)) [])"
      by blast
    then have "seq \<in> set (collect e re (fst (Objects e (length (listCalls w) + Suc i) ?q)) [])"
      by simp
    with i(1) show ?thesis by (meson Suc_less_eq)
  qed
qed

text \<open>
  Claim C3, amended. Every sequence that an expansion returns holds one clip of type
  \<open>source\<close> whose path is \<open>/\<close>, the bucket, \<open>/\<close> and the name of an object that one of the
  attempts listed. When the bucket name holds no slash, cutting such a path at its first two
  slashes, as the signing stage does, gives the three parts: the empty string, the bucket
  and the object name. The object name may hold slashes of its own.
\<close>

theorem listed_clip_shape:
  "(\<forall>seq \<in> set (fst (fst (expandPrefix e prefix config w))).
      \<exists>obj. (\<exists>i<5. obj \<in> set (fst (Objects e (length (listCalls w) + i)
                      \<lparr>Prefix = snd (selectFilter config prefix), Delimiter = ''/''\<rparr>)))
          \<and> Clips seq = [\<lparr>Type = ''source'', Path = ''/'' @ Bucket obj @ ''/'' @ Name obj\<rparr>])
   \<and> (\<forall>bucket name. CHR ''/'' \<notin> set bucket \<longrightarrow>
         strings_SplitN (''/'' @ bucket @ ''/'' @ name) ''/'' 3 = [[], bucket, name])"
proof (intro conjI ballI allI impI)
  fix seq
  assume seq: "seq \<in> set (fst (fst (expandPrefix e prefix config w)))"
  obtain re p where sf: "selectFilter config prefix = (re, p)"
    by (cases "selectFilter config prefix")
  from seq have "seq \<in> set (fst (fst (tryListing e re p 5 None w)))"
    by (simp add: expandPrefix_def sf maxTry_def)
  from tryListing_sequences [OF this] obtain i where
    i: "i < 5" "seq \<in> set (collect e re
            (fst (Objects e (length (listCalls w) + i) \<lparr>Prefix = p, Delimiter = ''/''\<rparr>)) [])"
    by blast
  from i(2) obtain obj where
    "obj \<in> set (fst (Objects e (length (listCalls w) + i) \<lparr>Prefix = p, Delimiter = ''/''\<rparr>))"
    "seq = \<lparr>Clips = [\<lparr>Type = ''source'', Path = ''/'' @ Bucket obj @ ''/'' @ Name obj\<rparr>]\<rparr>"
    by (auto simp: collect_eq)
  with i(1) sf
  show "\<exists>obj. (\<exists>i<5. obj \<in> set (fst (Objects e (length (listCalls w) + i)
                      \<lparr>Prefix = snd (selectFilter config prefix), Delimiter = ''/''\<rparr>)))
          \<and> Clips seq = [\<lparr>Type = ''source'', Path = ''/'' @ Bucket obj @ ''/'' @ Name obj\<rparr>]"
    by auto
next
  fix bucket name :: string
  assume "CHR ''/'' \<notin> set bucket"
  from strings_SplitN_3_two [of "CHR ''/''" "[]" bucket name] this
  show "strings_SplitN (''/'' @ bucket @ ''/'' @ name) ''/'' 3 = [[], bucket, name]"
    by simp
qed

lemma expandPrefix_flaky:
  "fst (fst (expandPrefix (sampleEnv flakyObjects) ''videos/asset'' sampleConfig world0)) =
     [\<lparr>Clips = [\<lparr>Type = ''source'', Path = ''/media/videos/asset_720p.mp4''\<rparr>]\<rparr>]"
  by code_simp

theorem listed_clip_shape_witness:
  "(\<exists>obj :: ObjectAttrs.
      Clips \<lparr>Clips = [\<lparr>Type = ''source'', Path = ''/media/videos/asset_720p.mp4''\<rparr>]\<rparr> =
       [\<lparr>Type = ''source'', Path = ''/'' @ Bucket obj @ ''/'' @ Name obj\<rparr>])
   \<and> strings_SplitN ''/media/videos/asset_720p.mp4'' ''/'' 3 = [[], ''media'', ''videos/asset_720p.mp4'']"
proof -
  note t = listed_clip_shape [of "sampleEnv flakyObjects" "''videos/asset''" sampleConfig world0]
  have "\<lparr>Clips = [\<lparr>Type = ''source'', Path = ''/media/videos/asset_720p.mp4''\<rparr>]\<rparr>
      \<in> set (fst (fst (expandPrefix (sampleEnv flakyObjects) ''videos/asset'' sampleConfig world0)))"
    by (simp add: expandPrefix_flaky)
  from t [THEN conjunct1, THEN bspec, OF this]
  have "\<exists>obj :: ObjectAttrs.
       Clips \<lparr>Clips = [\<lparr>Type = ''source'', Path = ''/media/videos/asset_720p.mp4''\<rparr>]\<rparr> =
       [\<lparr>Type = ''source'', Path = ''/'' @ Bucket obj @ ''/'' @ Name obj\<rparr>]"
    by blast
  moreover have "CHR ''/'' \<notin> set ''media''" by simp
  with t have "strings_SplitN (''/'' @ ''media'' @ ''/'' @ ''videos/asset_720p.mp4'') ''/'' 3 =
      [[], ''media'', ''videos/asset_720p.mp4'']"
    by blast
  ultimately show ?thesis by simp
qed

text \<open>
  Claim C3 as stated fails: the object \<open>videos/asset_720p.mp4\<close> of bucket \<open>media\<close> is
  listed and kept, and its clip path has four slash-delimited segments.
\<close>

theorem listed_clip_three_segments_counterexample:
  "fst (fst (expandPrefix (sampleEnv flakyObjects) ''videos/asset'' sampleConfig world0)) =
     [\<lparr>Clips = [\<lparr>Type = ''source'', Path = ''/media/videos/asset_720p.mp4''\<rparr>]\<rparr>]
   \<and> strings_Split ''/media/videos/asset_720p.mp4'' ''/'' = [[], ''media'', ''videos'', ''asset_720p.mp4'']
   \<and> length (strings_Split ''/media/videos/asset_720p.mp4'' ''/'') \<noteq> 3"
  by code_simp

section \<open>The signing stage\<close>

lemma signedPath_few:
  "length (filter (\<lambda>c. c = CHR ''/'') path) < 2 \<Longrightarrow> signedPath e path opts w = ((path, None), w)"
  using strings_SplitN_few [of "CHR ''/''" path] by (simp add: signedPath_def)

lemma signedPath_two:
  assumes "CHR ''/'' \<notin> set a" and "CHR ''/'' \<notin> set b"
  shows "signedPath e (a @ ''/'' @ b @ ''/'' @ k) opts w =
     (case SignedURL e b k opts of
        (raw, Some err) \<Rightarrow> (([], Some err), snd (callSignedURL e b k opts w))
      | (raw, None) \<Rightarrow>
          (case RequestURI e raw of
             (uri, Some err) \<Rightarrow> (([], Some err), snd (callSignedURL e b k opts w))
           | (uri, None) \<Rightarrow> ((uri, None), snd (callSignedURL e b k opts w))))"
  using strings_SplitN_3_two [OF assms, of k]
  by (simp add: signedPath_def callSignedURL_def split: prod.splits option.splits)

lemma signedPath_world:
  "fst (signedPath e path opts w) = fst (signedPath e path opts w')"
  by (simp add: signedPath_def callSignedURL_def Let_def split: prod.splits option.splits)

lemma signClips_success:
  "signClips e opts clips w = ((clips', None), w') \<Longrightarrow>
   clips' = map (\<lambda>clip. clip\<lparr>Path := fst (fst (signedPath e (Path clip) opts w0))\<rparr>) clips"
proof (induction clips arbitrary: w clips')
  case Nil
  then show ?case by simp
next
  case (Cons clip rest)
  obtain path err w1 where sp: "signedPath e (Path clip) opts w = ((path, err), w1)"
    by (metis surj_pair)
  obtain rest' err2 w2 where sc: "signClips e opts rest w1 = ((rest', err2), w2)"
    by (metis surj_pair)
  from Cons.prems sp sc
  have e: "err = None" "err2 = None" "clips' = clip\<lparr>Path := path\<rparr> # rest'" "w2 = w'"
    by (auto split: option.splits)
  have "fst (signedPath e (Path clip) opts w0) = (path, err)"
    using sp signedPath_world [of e "Path clip" opts w0 w] by simp
  then have "fst (fst (signedPath e (Path clip) opts w0)) = path" by simp
  with Cons.IH [of w1 rest'] sc e show ?case by simp
qed

lemma signSequences_success:
  "signSequences e opts seqs w = ((seqs', None), w') \<Longrightarrow>
   seqs' = map (\<lambda>seq. seq\<lparr>Clips :=
                   map (\<lambda>clip. clip\<lparr>Path := fst (fst (signedPath e (Path clip) opts w0))\<rparr>)
                     (Clips seq)\<rparr>) seqs"
proof (induction seqs arbitrary: w seqs')
  case Nil
  then show ?case by simp
next
  case (Cons seq rest)
  obtain clips err w1 where sc: "signClips e opts (Clips seq) w = ((clips, err), w1)"
    by (metis surj_pair)
  obtain rest' err2 w2 where ss: "signSequences e opts rest w1 = ((rest', err2), w2)"
    by (metis surj_pair)
  from Cons.prems sc ss
  have e: "err = None" "err2 = None" "seqs' = seq\<lparr>Clips := clips\<rparr> # rest'" "w2 = w'"
    by (auto split: option.splits)
  from signClips_success [of e opts "Clips seq" w clips w1 w0] sc e
  have "clips = map (\<lambda>clip. clip\<lparr>Path := fst (fst (signedPath e (Path clip) opts w0))\<rparr>) (Clips seq)"
    by simp
  with Cons.IH [of w1 rest'] ss e show ?case by simp
qed

text \<open>
  Claim C2, amended. A path with fewer than two slashes is passed through unchanged and the
  signer is not called. A path with at least two slashes, \<open>a/b/k\<close> with no slash in \<open>a\<close> and
  \<open>b\<close>, is signed with \<open>b\<close> as the bucket and \<open>k\<close> as the key, whatever stands before the
  first slash: the storage locator \<open>/bucket/key\<close> is the case of an empty \<open>a\<close>. The path is
  then replaced by the request URI of the URL the signer returned. When signing is enabled
  and succeeds, every clip of the mapping has its path rewritten in this way and every
  sequence keeps its clips in order.
\<close>

theorem signedURLs_rewrites_paths:
  "(length (filter (\<lambda>c. c = CHR ''/'') path) < 2 \<longrightarrow>
      signedPath e path opts w = ((path, None), w))
   \<and> (\<forall>a b k. path = a @ ''/'' @ b @ ''/'' @ k \<and> CHR ''/'' \<notin> set a \<and> CHR ''/'' \<notin> set b \<longrightarrow>
        signedPath e path opts w =
          (case SignedURL e b k opts of
             (raw, Some err) \<Rightarrow> (([], Some err), snd (callSignedURL e b k opts w))
           | (raw, None) \<Rightarrow>
               (case RequestURI e raw of
                  (uri, Some err) \<Rightarrow> (([], Some err), snd (callSignedURL e b k opts w))
                | (uri, None) \<Rightarrow> ((uri, None), snd (callSignedURL e b k opts w)))))
   \<and> (\<forall>m' w'. Options (SignConfig config) w = (Some opts, None) \<and>
         signedURLs e config m w = ((m', None), w') \<longrightarrow>
         Sequences m' =
           map (\<lambda>seq. seq\<lparr>Clips :=
                   map (\<lambda>clip. clip\<lparr>Path := fst (fst (signedPath e (Path clip) opts w))\<rparr>)
                     (Clips seq)\<rparr>)
             (Sequences m))"
proof (intro conjI allI impI)
  assume "length (filter (\<lambda>c. c = CHR ''/'') path) < 2"
  then show "signedPath e path opts w = ((path, None), w)" by (rule signedPath_few)
next
  fix a b k
  assume "path = a @ ''/'' @ b @ ''/'' @ k \<and> CHR ''/'' \<notin> set a \<and> CHR ''/'' \<notin> set b"
  then show "signedPath e path opts w =
          (case SignedURL e b k opts of
             (raw, Some err) \<Rightarrow> (([], Some err), snd (callSignedURL e b k opts w))
           | (raw, None) \<Rightarrow>
               (case RequestURI e raw of
                  (uri, Some err) \<Rightarrow> (([], Some err), snd (callSignedURL e b k opts w))
                | (uri, None) \<Rightarrow> ((uri, None), snd (callSignedURL e b k opts w))))"
    using signedPath_two [of a b e k opts w] by simp
next
  fix m' w'
  assume a: "Options (SignConfig config) w = (Some opts, None) \<and>
         signedURLs e config m w = ((m', None), w')"
  obtain seqs err w1 where ss: "signSequences e opts (Sequences m) w = ((seqs, err), w1)"
    by (metis surj_pair)
  from a have o: "Options (SignConfig config) w = (Some opts, None)"
    and s: "signedURLs e config m w = ((m', None), w')"
    by simp_all
  from s ss have "err = None" "m' = m\<lparr>Sequences := seqs\<rparr>"
    by (simp_all add: signedURLs_def o)
  with ss signSequences_success [of e opts "Sequences m" w seqs w1 w]
  show "Sequences m' =
           map (\<lambda>seq. seq\<lparr>Clips :=
                   map (\<lambda>clip. clip\<lparr>Path := fst (fst (signedPath e (Path clip) opts w))\<rparr>)
                     (Clips seq)\<rparr>)
             (Sequences m)"
    by simp
qed

lemma Options_sample: "Options (SignConfig sampleConfig) world0 = (Some sampleOpts, None)"
  by (simp add: Options_def sampleConfig_def world0_def sampleOpts_def)

lemma signedURLs_mixed:
  "signedURLs (sampleEnv flakyObjects) sampleConfig mixedMapping world0 =
     ((\<lparr>Sequences =
          [\<lparr>Clips = [\<lparr>Type = ''source'', Path = ''/media/videos/asset_720p.mp4?Signature=sig''\<rparr>]\<rparr>,
           \<lparr>Clips = [\<lparr>Type = ''source'', Path = ''intro.mp4''\<rparr>]\<rparr>]\<rparr>, None),
      \<lparr>now = 1, listCalls = [],
       signCalls = [\<lparr>signBucket = ''media'', signKey = ''videos/asset_720p.mp4'',
                     signOpts = sampleOpts, signAt = 0\<rparr>]\<rparr>)"
  by code_simp

theorem signedURLs_rewrites_paths_witness:
  "signedPath (sampleEnv flakyObjects) ''intro.mp4'' sampleOpts world0 = ((''intro.mp4'', None), world0)
   \<and> fst (signedPath (sampleEnv flakyObjects) ''/media/videos/asset_720p.mp4'' sampleOpts world0) =
       (''/media/videos/asset_720p.mp4?Signature=sig'', None)
   \<and> map (\<lambda>seq. seq\<lparr>Clips :=
              map (\<lambda>clip. clip\<lparr>Path := fst (fst (signedPath (sampleEnv flakyObjects) (Path clip)
                                                  sampleOpts world0))\<rparr>)
                (Clips seq)\<rparr>)
         (Sequences mixedMapping) =
       [\<lparr>Clips = [\<lparr>Type = ''source'', Path = ''/media/videos/asset_720p.mp4?Signature=sig''\<rparr>]\<rparr>,
        \<lparr>Clips = [\<lparr>Type = ''source'', Path = ''intro.mp4''\<rparr>]\<rparr>]"
proof -
  let ?e = "sampleEnv flakyObjects"
  have few: "length (filter (\<lambda>c. c = CHR ''/'') ''intro.mp4'') < 2" by simp
  from signedURLs_rewrites_paths [of "''intro.mp4''" ?e sampleOpts world0, THEN conjunct1] few
  have p1: "signedPath ?e ''intro.mp4'' sampleOpts world0 = ((''intro.mp4'', None), world0)"
    by blast
  have "''/media/videos/asset_720p.mp4'' = [] @ ''/'' @ ''media'' @ ''/'' @ ''videos/asset_720p.mp4''
      \<and> CHR ''/'' \<notin> set [] \<and> CHR ''/'' \<notin> set ''media''"
    by simp
  from signedURLs_rewrites_paths [of "''/media/videos/asset_720p.mp4''" ?e sampleOpts world0,
      THEN conjunct2, THEN conjunct1, THEN spec, THEN spec, THEN spec, THEN mp, OF this]
  have p2: "fst (signedPath ?e ''/media/videos/asset_720p.mp4'' sampleOpts world0) =
       (''/media/videos/asset_720p.mp4?Signature=sig'', None)"
    by (simp add: sampleEnv_def sampleSignedURL_def sampleRequestURI_def)
  have "Options (SignConfig sampleConfig) world0 = (Some sampleOpts, None)
      \<and> signedURLs ?e sampleConfig mixedMapping world0 =
        ((fst (fst (signedURLs ?e sampleConfig mixedMapping world0)), None),
         snd (signedURLs ?e sampleConfig mixedMapping world0))"
    by (simp add: Options_sample signedURLs_mixed)
  from signedURLs_rewrites_paths [where e = ?e and opts = sampleOpts and w = world0
      and config = sampleConfig and m = mixedMapping,
      THEN conjunct2, THEN conjunct2, THEN spec, THEN spec, THEN mp, OF this]
  have p3: "map (\<lambda>seq. seq\<lparr>Clips :=
              map (\<lambda>clip. clip\<lparr>Path := fst (fst (signedPath ?e (Path clip) sampleOpts world0))\<rparr>)
                (Clips seq)\<rparr>)
         (Sequences mixedMapping) =
       [\<lparr>Clips = [\<lparr>Type = ''source'', Path = ''/media/videos/asset_720p.mp4?Signature=sig''\<rparr>]\<rparr>,
        \<lparr>Clips = [\<lparr>Type = ''source'', Path = ''intro.mp4''\<rparr>]\<rparr>]"
    by (simp add: signedURLs_mixed)
  from p1 p2 p3 show ?thesis by blast
qed

text \<open>
  Claim C2 as stated fails: the injected resource \<open>extras/intro/clip.mp4\<close> does not start
  with a slash, so it is no storage locator, and yet it is signed, with the bucket \<open>intro\<close>,
  and its path is replaced.
\<close>

theorem signedPath_passthrough_counterexample:
  "take 1 ''extras/intro/clip.mp4'' \<noteq> ''/''
   \<and> appendExtraResources (sampleRequest [''extras/intro/clip.mp4'']) sampleConfig \<lparr>Sequences = []\<rparr> =
       \<lparr>Sequences = [\<lparr>Clips = [\<lparr>Type = ''source'', Path = ''extras/intro/clip.mp4''\<rparr>]\<rparr>]\<rparr>
   \<and> fst (signedURLs (sampleEnv flakyObjects) sampleConfig
         \<lparr>Sequences = [\<lparr>Clips = [\<lparr>Type = ''source'', Path = ''extras/intro/clip.mp4''\<rparr>]\<rparr>]\<rparr> world0) =
       (\<lparr>Sequences = [\<lparr>Clips = [\<lparr>Type = ''source'', Path = ''/intro/clip.mp4?Signature=sig''\<rparr>]\<rparr>]\<rparr>,
        None)"
  by code_simp

subsection \<open>The options of the signer calls\<close>

lemma signedPath_calls:
  "\<exists>cs. signCalls (snd (signedPath e path opts w)) = signCalls w @ cs \<and>
        (\<forall>c \<in> set cs. signOpts c = opts)"
  by (simp add: signedPath_def callSignedURL_def Let_def split: prod.splits option.splits)

lemma signClips_calls:
  "\<exists>cs. signCalls (snd (signClips e opts clips w)) = signCalls w @ cs \<and>
        (\<forall>c \<in> set cs. signOpts c = opts)"
proof (induction clips arbitrary: w)
  case Nil
  show ?case by simp
next
  case (Cons clip rest)
  obtain path err w1 where sp: "signedPath e (Path clip) opts w = ((path, err), w1)"
    by (metis surj_pair)
  from signedPath_calls [of e "Path clip" opts w] sp obtain cs1 where
    cs1: "signCalls w1 = signCalls w @ cs1" "\<forall>c \<in> set cs1. signOpts c = opts"
    by auto
  show ?case
  proof (cases err)
    case (Some x)
    with sp cs1 show ?thesis by simp
  next
    case None
    obtain rest' err2 w2 where sc: "signClips e opts rest w1 = ((rest', err2), w2)"
      by (metis surj_pair)
    from Cons.IH [of w1] sc obtain cs2 where
      cs2: "signCalls w2 = signCalls w1 @ cs2" "\<forall>c \<in> set cs2. signOpts c = opts"
      by auto
    from cs1 cs2 have "signCalls w2 = signCalls w @ (cs1 @ cs2)"
      "\<forall>c \<in> set (cs1 @ cs2). signOpts c = opts"
      by auto
    with sp None sc show ?thesis by (simp del: append_assoc)
  qed
qed

lemma signSequences_calls:
  "\<exists>cs. signCalls (snd (signSequences e opts seqs w)) = signCalls w @ cs \<and>
        (\<forall>c \<in> set cs. signOpts c = opts)"
proof (induction seqs arbitrary: w)
  case Nil
  show ?case by simp
next
  case (Cons seq rest)
  obtain clips err w1 where sc: "signClips e opts (Clips seq) w = ((clips, err), w1)"
    by (metis surj_pair)
  from signClips_calls [of e opts "Clips seq" w] sc obtain cs1 where
    cs1: "signCalls w1 = signCalls w @ cs1" "\<forall>c \<in> set cs1. signOpts c = opts"
    by auto
  show ?case
  proof (cases err)
    case (Some x)
    with sc cs1 show ?thesis by simp
  next
    case None
    obtain rest' err2 w2 where ss: "signSequences e opts rest w1 = ((rest', err2), w2)"
      by (metis surj_pair)
    from Cons.IH [of w1] ss obtain cs2 where
      cs2: "signCalls w2 = signCalls w1 @ cs2" "\<forall>c \<in> set cs2. signOpts c = opts"
      by auto
    from cs1 cs2 have "signCalls w2 = signCalls w @ (cs1 @ cs2)"
      "\<forall>c \<in> set (cs1 @ cs2). signOpts c = opts"
      by auto
    with sc None ss show ?thesis by (simp del: append_assoc)
  qed
qed

text \<open>
  Claim C1, amended. The signer calls that \<open>signedURLs\<close> makes are appended to the calls
  made before, and every one of them carries the same options: the method \<open>GET\<close>, the
  configured access identity and private key, and the one expiration time computed when the
  signing stage starts, the time at that moment plus the configured duration. No clip gets
  an expiration time of its own.
\<close>

theorem signedURLs_single_expiry:
  "\<exists>cs. signCalls (snd (signedURLs e config m w)) = signCalls w @ cs \<and>
        (\<forall>c \<in> set cs.
           Expires (signOpts c) = now w + Expiration (SignConfig config) \<and>
           Method (signOpts c) = ''GET'' \<and>
           GoogleAccessID (signOpts c) = AccessID (SignConfig config) \<and>
           Some (OptPrivateKey (signOpts c)) = PrivateKey (SignConfig config))"
proof (cases "AccessID (SignConfig config) = [] \<or> PrivateKey (SignConfig config) = None")
  case True
  then have "signedURLs e config m w = ((m, None), w)"
    by (simp add: signedURLs_def Options_def)
  then show ?thesis by simp
next
  case False
  let ?opts = "\<lparr>GoogleAccessID = AccessID (SignConfig config),
                OptPrivateKey = the (PrivateKey (SignConfig config)),
                Method = ''GET'', Expires = now w + Expiration (SignConfig config)\<rparr>"
  from False have o: "Options (SignConfig config) w = (Some ?opts, None)"
    by (simp add: Options_def)
  obtain seqs err w1 where ss: "signSequences e ?opts (Sequences m) w = ((seqs, err), w1)"
    by (metis surj_pair)
  from signSequences_calls [of e ?opts "Sequences m" w] ss obtain cs where
    cs: "signCalls w1 = signCalls w @ cs" "\<forall>c \<in> set cs. signOpts c = ?opts"
    by auto
  from o ss have "snd (signedURLs e config m w) = w1"
    by (simp add: signedURLs_def)
  with cs False show ?thesis by auto
qed

lemma signCalls_listed:
  "signCalls (snd (signedURLs (sampleEnv flakyObjects) sampleConfig listedMapping world0)) =
     [\<lparr>signBucket = ''media'', signKey = ''videos/asset_360p.mp4'', signOpts = sampleOpts, signAt = 0\<rparr>,
      \<lparr>signBucket = ''media'', signKey = ''videos/asset_720p.mp4'', signOpts = sampleOpts, signAt = 1\<rparr>]"
  by code_simp

theorem signedURLs_single_expiry_witness:
  "length (signCalls (snd (signedURLs (sampleEnv flakyObjects) sampleConfig listedMapping world0))) = 2
   \<and> list_all (\<lambda>c. Expires (signOpts c) = 10)
        (signCalls (snd (signedURLs (sampleEnv flakyObjects) sampleConfig listedMapping world0)))"
proof -
  from signedURLs_single_expiry [of "sampleEnv flakyObjects" sampleConfig listedMapping world0]
  have "\<forall>c \<in> set (signCalls (snd (signedURLs (sampleEnv flakyObjects) sampleConfig listedMapping world0))).
          Expires (signOpts c) = now world0 + Expiration (SignConfig sampleConfig)"
    by (auto simp: world0_def)
  moreover have "now world0 + Expiration (SignConfig sampleConfig) = 10"
    by (simp add: world0_def sampleConfig_def)
  ultimately have "list_all (\<lambda>c. Expires (signOpts c) = 10)
        (signCalls (snd (signedURLs (sampleEnv flakyObjects) sampleConfig listedMapping world0)))"
    by (simp add: list_all_iff)
  moreover have "length (signCalls (snd (signedURLs (sampleEnv flakyObjects) sampleConfig
        listedMapping world0))) = 2"
    by (simp add: signCalls_listed)
  ultimately show ?thesis by blast
qed

text \<open>
  Claim C1 as stated fails. With two listed clips and a signer call that takes one time unit,
  the second clip is signed at time 1 with the expiration time 10, which was computed at time
  0; a fresh value would be 11.
\<close>

theorem signedURLs_fresh_expiry_counterexample:
  "signAt (signCalls (snd (signedURLs (sampleEnv flakyObjects) sampleConfig listedMapping world0)) ! 1) = 1
   \<and> Expires (signOpts
        (signCalls (snd (signedURLs (sampleEnv flakyObjects) sampleConfig listedMapping world0)) ! 1)) = 10
   \<and> Expires (signOpts
        (signCalls (snd (signedURLs (sampleEnv flakyObjects) sampleConfig listedMapping world0)) ! 1))
       \<noteq> signAt (signCalls (snd (signedURLs (sampleEnv flakyObjects) sampleConfig listedMapping world0)) ! 1)
           + Expiration (SignConfig sampleConfig)"
  by code_simp

section \<open>Failures of a request\<close>

lemma tryListing_not_done:
  "err \<noteq> Some IteratorDone \<Longrightarrow> snd (fst (tryListing e re p k err w)) \<noteq> Some IteratorDone"
  by (induction k arbitrary: err w) (simp_all add: callObjects_def Let_def split: prod.splits)

lemma expandPrefix_not_done:
  "snd (fst (expandPrefix e prefix config w)) \<noteq> Some IteratorDone"
  by (simp add: expandPrefix_def tryListing_not_done split: prod.splits)

lemma expandAll_append:
  "expandAll e config (ps1 @ ps2) m w =
     (case expandAll e config ps1 m w of
        ((m1, Some err), w1) \<Rightarrow> ((m1, Some err), w1)
      | ((m1, None), w1) \<Rightarrow> expandAll e config ps2 m1 w1)"
  by (induction ps1 arbitrary: m w) (simp_all split: prod.splits option.splits)

lemma signClips_error:
  "(snd (fst (signClips e opts clips w)) = None \<longrightarrow>
      (\<forall>clip \<in> set clips. snd (fst (signedPath e (Path clip) opts w0)) = None))
   \<and> (\<forall>err. snd (fst (signClips e opts clips w)) = Some err \<longrightarrow>
      (\<exists>clip \<in> set clips. snd (fst (signedPath e (Path clip) opts w0)) = Some err))"
proof (induction clips arbitrary: w)
  case Nil
  show ?case by simp
next
  case (Cons clip rest)
  obtain path err w1 where sp: "signedPath e (Path clip) opts w = ((path, err), w1)"
    by (metis surj_pair)
  have v: "fst (signedPath e (Path clip) opts w0) = (path, err)"
    using sp signedPath_world [of e "Path clip" opts w0 w] by simp
  show ?case
  proof (cases err)
    case (Some x)
    with sp v show ?thesis by simp
  next
    case None
    obtain rest' err2 w2 where sc: "signClips e opts rest w1 = ((rest', err2), w2)"
      by (metis surj_pair)
    from Cons.IH [of w1] sc sp None v show ?thesis by simp
  qed
qed

lemma signSequences_error:
  "(snd (fst (signSequences e opts seqs w)) = None \<longrightarrow>
      (\<forall>seq \<in> set seqs. \<forall>clip \<in> set (Clips seq).
         snd (fst (signedPath e (Path clip) opts w0)) = None))
   \<and> (\<forall>err. snd (fst (signSequences e opts seqs w)) = Some err \<longrightarrow>
      (\<exists>seq \<in> set seqs. \<exists>clip \<in> set (Clips seq).
         snd (fst (signedPath e (Path clip) opts w0)) = Some err))"
proof (induction seqs arbitrary: w)
  case Nil
  show ?case by simp
next
  case (Cons seq rest)
  obtain clips err w1 where sc: "signClips e opts (Clips seq) w = ((clips, err), w1)"
    by (metis surj_pair)
  note c = signClips_error [of e opts "Clips seq" w w0]
  show ?case
  proof (cases err)
    case (Some x)
    with sc c show ?thesis by simp
  next
    case None
    obtain rest' err2 w2 where ss: "signSequences e opts rest w1 = ((rest', err2), w2)"
      by (metis surj_pair)
    from Cons.IH [of w1] ss sc None c show ?thesis by simp
  qed
qed

lemma getMapHandler_listing_error:
  assumes "ReqMethod r = ''GET''" and "strings_TrimLeft (URL_Path r) ''/'' \<noteq> []"
    and "getPrefixMapping e (strings_TrimLeft (URL_Path r) ''/'') c w = ((m, Some err), w1)"
    and "err \<noteq> IteratorDone"
  shows "getMapHandler e c r w = (http_Error (Error err) 500, w1)"
  using assms by (simp add: getMapHandler_def)

lemma getMapHandler_signing_error:
  assumes "ReqMethod r = ''GET''" and "strings_TrimLeft (URL_Path r) ''/'' \<noteq> []"
    and "getPrefixMapping e (strings_TrimLeft (URL_Path r) ''/'') c w = ((m, None), w1)"
    and "signedURLs e c (appendExtraResources r c m) w1 = ((m', Some err), w2)"
  shows "getMapHandler e c r w = (http_Error (Error err) 500, w2)"
  using assms by (simp add: getMapHandler_def)

text \<open>
  Claim C6. For a \<open>GET\<close> request with a non-empty prefix: when the physical prefixes before
  \<open>p\<close> expand without error and the expansion of \<open>p\<close> fails, the response is the error
  response with status 500 and the message of that error, and the sequences gathered from
  the earlier prefixes are not part of it. When the listing succeeds, signing is enabled and
  the signing of some clip of the mapping fails, the response is the error response with
  status 500 and the message of the signing error of one of the clips. An error response
  carries its message as a line of text and never a mapping.
\<close>

theorem getMapHandler_failures:
  assumes "ReqMethod r = ''GET''" and "strings_TrimLeft (URL_Path r) ''/'' \<noteq> []"
  shows "(\<forall>ps1 p ps2 partial w' seqs err w1.
            getPrefixes (strings_TrimLeft (URL_Path r) ''/'') c = ps1 @ p # ps2 \<and>
            expandAll e c ps1 \<lparr>Sequences = []\<rparr> w = ((partial, None), w') \<and>
            expandPrefix e p c w' = ((seqs, Some err), w1) \<longrightarrow>
            getMapHandler e c r w = (http_Error (Error err) 500, w1))
       \<and> (\<forall>m w1 opts.
            getPrefixMapping e (strings_TrimLeft (URL_Path r) ''/'') c w = ((m, None), w1) \<and>
            Options (SignConfig c) w1 = (Some opts, None) \<and>
            (\<exists>seq \<in> set (Sequences (appendExtraResources r c m)). \<exists>clip \<in> set (Clips seq).
               snd (fst (signedPath e (Path clip) opts w1)) \<noteq> None) \<longrightarrow>
            (\<exists>err. (\<exists>seq \<in> set (Sequences (appendExtraResources r c m)). \<exists>clip \<in> set (Clips seq).
                      snd (fst (signedPath e (Path clip) opts w1)) = Some err) \<and>
                   fst (getMapHandler e c r w) = http_Error (Error err) 500))
       \<and> (\<forall>msg code. status (http_Error msg code) = code \<and>
            content (http_Error msg code) = Text (msg @ [CHR 0x0A]))"
proof (intro conjI allI impI)
  fix ps1 p ps2 partial w' seqs err w1
  assume a: "getPrefixes (strings_TrimLeft (URL_Path r) ''/'') c = ps1 @ p # ps2 \<and>
            expandAll e c ps1 \<lparr>Sequences = []\<rparr> w = ((partial, None), w') \<and>
            expandPrefix e p c w' = ((seqs, Some err), w1)"
  then have "getPrefixMapping e (strings_TrimLeft (URL_Path r) ''/'') c w = ((partial, Some err), w1)"
    by (simp add: getPrefixMapping_def expandAll_append)
  moreover from a expandPrefix_not_done [of e p c w'] have "err \<noteq> IteratorDone" by auto
  ultimately show "getMapHandler e c r w = (http_Error (Error err) 500, w1)"
    using assms by (intro getMapHandler_listing_error)
next
  fix m w1 opts
  assume a: "getPrefixMapping e (strings_TrimLeft (URL_Path r) ''/'') c w = ((m, None), w1) \<and>
            Options (SignConfig c) w1 = (Some opts, None) \<and>
            (\<exists>seq \<in> set (Sequences (appendExtraResources r c m)). \<exists>clip \<in> set (Clips seq).
               snd (fst (signedPath e (Path clip) opts w1)) \<noteq> None)"
  let ?m = "appendExtraResources r c m"
  obtain seqs err w2 where ss: "signSequences e opts (Sequences ?m) w1 = ((seqs, err), w2)"
    by (metis surj_pair)
  from a signSequences_error [of e opts "Sequences ?m" w1 w1] ss
  obtain x where x: "err = Some x" by (cases err) auto
  with signSequences_error [of e opts "Sequences ?m" w1 w1] ss
  have orig: "\<exists>seq \<in> set (Sequences ?m). \<exists>clip \<in> set (Clips seq).
                snd (fst (signedPath e (Path clip) opts w1)) = Some x"
    by simp
  from a ss x have "signedURLs e c ?m w1 = ((?m\<lparr>Sequences := seqs\<rparr>, Some x), w2)"
    by (simp add: signedURLs_def)
  with a assms have "getMapHandler e c r w = (http_Error (Error x) 500, w2)"
    by (intro getMapHandler_signing_error) auto
  with orig
  show "\<exists>err. (\<exists>seq \<in> set (Sequences ?m). \<exists>clip \<in> set (Clips seq).
                      snd (fst (signedPath e (Path clip) opts w1)) = Some err) \<and>
                   fst (getMapHandler e c r w) = http_Error (Error err) 500"
    by (intro exI [of _ x]) simp
next
  fix msg code
  show "status (http_Error msg code) = code" by (simp add: http_Error_def)
  show "content (http_Error msg code) = Text (msg @ [CHR 0x0A])" by (simp add: http_Error_def)
qed

lemma getPrefixes_sample:
  "getPrefixes (strings_TrimLeft (URL_Path (sampleRequest [])) ''/'') sampleConfig =
     [''videos/asset''] @ ''subtitles/asset'' # []"
  by code_simp

lemma expandAll_half:
  "expandAll (sampleEnv halfObjects) sampleConfig [''videos/asset''] \<lparr>Sequences = []\<rparr> world0 =
     ((\<lparr>Sequences = [\<lparr>Clips = [\<lparr>Type = ''source'', Path = ''/media/videos/asset_720p.mp4''\<rparr>]\<rparr>]\<rparr>,
       None),
      \<lparr>now = 0, listCalls = [\<lparr>Prefix = ''videos/asset'', Delimiter = ''/''\<rparr>], signCalls = []\<rparr>)"
  by code_simp

lemma expandPrefix_half:
  "expandPrefix (sampleEnv halfObjects) ''subtitles/asset'' sampleConfig
     \<lparr>now = 0, listCalls = [\<lparr>Prefix = ''videos/asset'', Delimiter = ''/''\<rparr>], signCalls = []\<rparr> =
     (([], Some (Failure ''unavailable'')),
      \<lparr>now = 0,
       listCalls = \<lparr>Prefix = ''videos/asset'', Delimiter = ''/''\<rparr> #
                   replicate 5 \<lparr>Prefix = ''subtitles/asset'', Delimiter = ''/''\<rparr>,
       signCalls = []\<rparr>)"
  by code_simp

lemma getPrefixMapping_unsigned:
  "getPrefixMapping ((sampleEnv flakyObjects)\<lparr>SignedURL := failingSignedURL\<rparr>)
     (strings_TrimLeft (URL_Path (sampleRequest [])) ''/'') sampleConfig world0 =
     ((\<lparr>Sequences =
          [\<lparr>Clips = [\<lparr>Type = ''source'', Path = ''/media/videos/asset_720p.mp4''\<rparr>]\<rparr>,
           \<lparr>Clips = [\<lparr>Type = ''source'', Path = ''/media/videos/asset_720p.mp4''\<rparr>]\<rparr>]\<rparr>, None),
      \<lparr>now = 0,
       listCalls = [\<lparr>Prefix = ''videos/asset'', Delimiter = ''/''\<rparr>,
                    \<lparr>Prefix = ''videos/asset'', Delimiter = ''/''\<rparr>,
                    \<lparr>Prefix = ''subtitles/asset'', Delimiter = ''/''\<rparr>],
       signCalls = []\<rparr>)"
  by code_simp

theorem getMapHandler_failures_witness:
  "getMapHandler (sampleEnv halfObjects) sampleConfig (sampleRequest []) world0 =
     (http_Error ''unavailable'' 500,
      \<lparr>now = 0,
       listCalls = \<lparr>Prefix = ''videos/asset'', Delimiter = ''/''\<rparr> #
                   replicate 5 \<lparr>Prefix = ''subtitles/asset'', Delimiter = ''/''\<rparr>,
       signCalls = []\<rparr>)
   \<and> status (fst (getMapHandler ((sampleEnv flakyObjects)\<lparr>SignedURL := failingSignedURL\<rparr>)
         sampleConfig (sampleRequest []) world0)) = 500"
proof -
  have get: "ReqMethod (sampleRequest []) = ''GET''"
    by (simp add: sampleRequest_def)
  have nonempty: "strings_TrimLeft (URL_Path (sampleRequest [])) ''/'' \<noteq> []"
    by (simp add: sampleRequest_def strings_TrimLeft_def)
  note t1 = getMapHandler_failures [OF get nonempty, where e = "sampleEnv halfObjects"
      and c = sampleConfig and w = world0, THEN conjunct1, rule_format]
  from t1 [OF conjI [OF getPrefixes_sample conjI [OF expandAll_half expandPrefix_half]]]
  have a: "getMapHandler (sampleEnv halfObjects) sampleConfig (sampleRequest []) world0 =
     (http_Error ''unavailable'' 500,
      \<lparr>now = 0,
       listCalls = \<lparr>Prefix = ''videos/asset'', Delimiter = ''/''\<rparr> #
                   replicate 5 \<lparr>Prefix = ''subtitles/asset'', Delimiter = ''/''\<rparr>,
       signCalls = []\<rparr>)"
    by simp
  let ?e = "(sampleEnv flakyObjects)\<lparr>SignedURL := failingSignedURL\<rparr>"
  let ?w1 = "\<lparr>now = 0,
       listCalls = [\<lparr>Prefix = ''videos/asset'', Delimiter = ''/''\<rparr>,
                    \<lparr>Prefix = ''videos/asset'', Delimiter = ''/''\<rparr>,
                    \<lparr>Prefix = ''subtitles/asset'', Delimiter = ''/''\<rparr>],
       signCalls = []\<rparr>"
  let ?m = "\<lparr>Sequences =
          [\<lparr>Clips = [\<lparr>Type = ''source'', Path = ''/media/videos/asset_720p.mp4''\<rparr>]\<rparr>,
           \<lparr>Clips = [\<lparr>Type = ''source'', Path = ''/media/videos/asset_720p.mp4''\<rparr>]\<rparr>]\<rparr>"
  have o: "Options (SignConfig sampleConfig) ?w1 = (Some sampleOpts, None)"
    by (simp add: Options_def sampleConfig_def sampleOpts_def)
  have f: "\<exists>seq \<in> set (Sequences (appendExtraResources (sampleRequest []) sampleConfig ?m)).
           \<exists>clip \<in> set (Clips seq). snd (fst (signedPath ?e (Path clip) sampleOpts ?w1)) \<noteq> None"
    by code_simp
  note t2 = getMapHandler_failures [OF get nonempty, where e = ?e
      and c = sampleConfig and w = world0, THEN conjunct2, THEN conjunct1, rule_format]
  from t2 [OF conjI [OF getPrefixMapping_unsigned conjI [OF o f]]]
  obtain err where "fst (getMapHandler ?e sampleConfig (sampleRequest []) world0) =
      http_Error (Error err) 500"
    by blast
  then have b: "status (fst (getMapHandler ?e sampleConfig (sampleRequest []) world0)) = 500"
    by (simp add: http_Error_def)
  from a b show ?thesis by blast
qed

section \<open>The prefix fan-out\<close>

subsection \<open>Splitting a path at its last slash\<close>

lemma strings_LastIndex_char:
  "(strings_LastIndex s [c] = None \<longrightarrow> c \<notin> set s)
   \<and> (\<forall>i. strings_LastIndex s [c] = Some i \<longrightarrow>
         i < length s \<and> s ! i = c \<and> c \<notin> set (drop (Suc i) s))"
proof (induction s)
  case Nil
  show ?case by simp
next
  case (Cons x xs)
  show ?case
  proof (cases "strings_LastIndex xs [c]")
    case None
    with Cons show ?thesis by (auto simp: strings_HasPrefix_def)
  next
    case (Some j)
    with Cons show ?thesis by (auto simp: strings_HasPrefix_def)
  qed
qed

lemma path_Split_parts:
  "fst (path_Split p) @ snd (path_Split p) = p
   \<and> CHR ''/'' \<notin> set (snd (path_Split p))
   \<and> (fst (path_Split p) = [] \<or> last (fst (path_Split p)) = CHR ''/'')"
proof (cases "strings_LastIndex p ''/''")
  case None
  then show ?thesis using strings_LastIndex_char [of p "CHR ''/''"]
    by (simp add: path_Split_def)
next
  case (Some i)
  with strings_LastIndex_char [of p "CHR ''/''"]
  have i: "i < length p" "p ! i = CHR ''/''" "CHR ''/'' \<notin> set (drop (Suc i) p)"
    by simp_all
  have t: "take (Suc i) p = take i p @ [p ! i]" using i(1) by (rule take_Suc_conv_app_nth)
  have "take (Suc i) p @ drop (Suc i) p = p" by (rule append_take_drop_id)
  with i Some t show ?thesis by (simp add: path_Split_def)
qed

lemma path_Split_trailing_slash:
  assumes "p \<noteq> []" and "last p = CHR ''/''"
  shows "snd (path_Split p) = []"
proof (rule ccontr)
  assume ne: "snd (path_Split p) \<noteq> []"
  from path_Split_parts [of p] have p: "p = fst (path_Split p) @ snd (path_Split p)"
    and n: "CHR ''/'' \<notin> set (snd (path_Split p))"
    by simp_all
  from p ne have "last p = last (snd (path_Split p))" by (metis last_appendR)
  with ne have "last p \<in> set (snd (path_Split p))" by simp
  with n assms(2) show False by simp
qed

lemma getPrefixes_eq:
  "getPrefixes originalPrefix config =
     originalPrefix # map (\<lambda>p. path_Join [p, snd (path_Split originalPrefix)]) (MapExtraPrefixes config)"
proof -
  have "foldl (\<lambda>prefixes p. prefixes @ [f p]) acc ps = acc @ map f ps" for f :: "string \<Rightarrow> string" and acc ps
    by (induction ps arbitrary: acc) simp_all
  then show ?thesis by (simp add: getPrefixes_def)
qed

subsection \<open>Cleaning a path of plain names\<close>

lemma cleanLoop_slash: "cleanLoop rooted (CHR ''/'' # rest) out dotdot = cleanLoop rooted rest out dotdot"
  by simp

lemma cleanLoop_plain:
  assumes "plainName n" and "rest = [] \<or> take 1 rest = ''/''"
  shows "cleanLoop False (n @ rest) out dotdot =
           cleanLoop False rest ((if out \<noteq> [] then out @ ''/'' else out) @ n) dotdot"
proof -
  from assms(1) obtain c cs where n: "n = c # cs" and c: "c \<noteq> CHR ''/''"
    and cs: "CHR ''/'' \<notin> set cs" and nd: "n \<noteq> ''.''" and ndd: "n \<noteq> ''..''"
    by (cases n) (auto simp: plainName_def)
  have all: "\<And>x. x \<in> set cs \<Longrightarrow> x \<noteq> CHR ''/''" using cs by blast
  have stop: "takeWhile (\<lambda>x. x \<noteq> CHR ''/'') rest = [] \<and> dropWhile (\<lambda>x. x \<noteq> CHR ''/'') rest = rest"
    using assms(2) by (cases rest) auto
  have tk: "takeWhile (\<lambda>x. x \<noteq> CHR ''/'') (cs @ rest) = cs"
    using takeWhile_append2 [of cs "\<lambda>x. x \<noteq> CHR ''/''" rest, OF all] stop by simp
  have dr: "dropWhile (\<lambda>x. x \<noteq> CHR ''/'') (cs @ rest) = rest"
    using dropWhile_append2 [of cs "\<lambda>x. x \<noteq> CHR ''/''" rest, OF all] stop by simp
  have d1: "\<not> dotElem (c # cs @ rest)"
    using nd n cs by (cases cs) (auto simp: dotElem_def)
  have d2: "\<not> dotdotElem (c # cs @ rest)"
  proof (cases cs)
    case Nil
    with n nd assms(2) show ?thesis by (cases rest) (auto simp: dotdotElem_def)
  next
    case (Cons d ds)
    with n ndd cs show ?thesis by (cases ds) (auto simp: dotdotElem_def)
  qed
  show ?thesis
    unfolding n using c d1 d2 tk dr by simp
qed

lemma cleanLoop_names:
  assumes "ns \<noteq> []" and "\<forall>n \<in> set ns. plainName n" and "rest = [] \<or> take 1 rest = ''/''"
  shows "cleanLoop False (slashJoin ns @ rest) out dotdot =
           cleanLoop False rest ((if out \<noteq> [] then out @ ''/'' else out) @ slashJoin ns) dotdot"
  using assms
proof (induction ns arbitrary: out rule: slashJoin.induct)
  case 1
  then show ?case by simp
next
  case (2 n)
  then show ?case using cleanLoop_plain [of n rest out dotdot] by simp
next
  case (3 n m ns)
  from "3.prems" have pn: "plainName n" and rest: "\<forall>x \<in> set (m # ns). plainName x" by simp_all
  from pn have ne: "n \<noteq> []" by (simp add: plainName_def)
  have "cleanLoop False (slashJoin (n # m # ns) @ rest) out dotdot =
        cleanLoop False (n @ (''/'' @ slashJoin (m # ns) @ rest)) out dotdot"
    by simp
  also have "\<dots> = cleanLoop False (''/'' @ slashJoin (m # ns) @ rest)
                     ((if out \<noteq> [] then out @ ''/'' else out) @ n) dotdot"
    by (rule cleanLoop_plain [OF pn]) simp
  also have "\<dots> = cleanLoop False (slashJoin (m # ns) @ rest)
                     ((if out \<noteq> [] then out @ ''/'' else out) @ n) dotdot"
    by simp
  also have "\<dots> = cleanLoop False rest
                     ((if (if out \<noteq> [] then out @ ''/'' else out) @ n \<noteq> []
                       then ((if out \<noteq> [] then out @ ''/'' else out) @ n) @ ''/''
                       else (if out \<noteq> [] then out @ ''/'' else out) @ n) @ slashJoin (m # ns)) dotdot"
    using "3.IH" [OF _ rest "3.prems"(3)] by simp
  also have "\<dots> = cleanLoop False rest
                     ((if out \<noteq> [] then out @ ''/'' else out) @ slashJoin (n # m # ns)) dotdot"
    using ne by simp
  finally show ?case .
qed

lemma slashJoin_head:
  "ns \<noteq> [] \<Longrightarrow> \<forall>n \<in> set ns. plainName n \<Longrightarrow> \<exists>c cs. slashJoin ns = c # cs \<and> c \<noteq> CHR ''/''"
proof (induction ns rule: slashJoin.induct)
  case 1
  then show ?case by simp
next
  case (2 n)
  then obtain c cs where "n = c # cs" "c \<noteq> CHR ''/''"
    by (cases n) (auto simp: plainName_def)
  then show ?case by simp
next
  case (3 n m ns)
  then obtain c cs where "n = c # cs" "c \<noteq> CHR ''/''"
    by (cases n) (auto simp: plainName_def)
  then show ?case by simp
qed

lemma slashJoin_nonempty:
  assumes "ns \<noteq> []" and "\<forall>n \<in> set ns. plainName n"
  shows "slashJoin ns \<noteq> [] \<and> take 1 (slashJoin ns) \<noteq> ''/''"
  using slashJoin_head [OF assms] by auto

lemma path_Clean_names:
  assumes "ns \<noteq> []" and "\<forall>n \<in> set ns. plainName n"
  shows "path_Clean (slashJoin ns) = slashJoin ns"
    and "path_Clean (slashJoin ns @ ''/'') = slashJoin ns"
    and "path_Clean (slashJoin ns @ ''//'') = slashJoin ns"
    and "plainName l \<Longrightarrow> path_Clean (slashJoin ns @ ''//'' @ l) = slashJoin ns @ ''/'' @ l"
    and "plainName l \<Longrightarrow> path_Clean (slashJoin ns @ ''/'' @ l) = slashJoin ns @ ''/'' @ l"
proof -
  note ne = slashJoin_nonempty [OF assms]
  from ne have r: "take 1 (slashJoin ns @ x) \<noteq> ''/''" for x
    by (cases "slashJoin ns") auto
  show "path_Clean (slashJoin ns) = slashJoin ns"
    using cleanLoop_names [OF assms, of "[]" "[]" 0] ne by (simp add: path_Clean_def)
  show "path_Clean (slashJoin ns @ ''/'') = slashJoin ns"
    using cleanLoop_names [OF assms, of "''/''" "[]" 0] ne r [of "''/''"]
    by (simp add: path_Clean_def)
  show "path_Clean (slashJoin ns @ ''//'') = slashJoin ns"
    using cleanLoop_names [OF assms, of "''//''" "[]" 0] ne r [of "''//''"]
    by (simp add: path_Clean_def)
  show "path_Clean (slashJoin ns @ ''//'' @ l) = slashJoin ns @ ''/'' @ l" if l: "plainName l"
  proof -
    have "cleanLoop False (slashJoin ns @ ''//'' @ l) [] 0 = cleanLoop False (''//'' @ l) (slashJoin ns) 0"
      using cleanLoop_names [OF assms, of "''//'' @ l" "[]" 0] by simp
    also have "\<dots> = cleanLoop False (l @ []) (slashJoin ns) 0" by simp
    also have "\<dots> = cleanLoop False [] ((if slashJoin ns \<noteq> [] then slashJoin ns @ ''/'' else slashJoin ns) @ l) 0"
      by (rule cleanLoop_plain [OF l]) simp
    finally have "cleanLoop False (slashJoin ns @ ''//'' @ l) [] 0 = slashJoin ns @ ''/'' @ l"
      using ne by simp
    with ne r [of "''//'' @ l"] show ?thesis by (simp add: path_Clean_def)
  qed
  show "path_Clean (slashJoin ns @ ''/'' @ l) = slashJoin ns @ ''/'' @ l" if l: "plainName l"
  proof -
    have "cleanLoop False (slashJoin ns @ ''/'' @ l) [] 0 = cleanLoop False (''/'' @ l) (slashJoin ns) 0"
      using cleanLoop_names [OF assms, of "''/'' @ l" "[]" 0] by simp
    also have "\<dots> = cleanLoop False (l @ []) (slashJoin ns) 0" by simp
    also have "\<dots> = cleanLoop False [] ((if slashJoin ns \<noteq> [] then slashJoin ns @ ''/'' else slashJoin ns) @ l) 0"
      by (rule cleanLoop_plain [OF l]) simp
    finally have "cleanLoop False (slashJoin ns @ ''/'' @ l) [] 0 = slashJoin ns @ ''/'' @ l"
      using ne by simp
    with ne r [of "''/'' @ l"] show ?thesis by (simp add: path_Clean_def)
  qed
qed

lemma path_Join_two:
  "path_Join [p, l] = (if p = [] \<and> l = [] then [] else if p = [] then path_Clean l
                       else path_Clean (p @ ''/'' @ l))"
  by (simp add: path_Join_def)

subsection \<open>The physical prefixes and the merge of their expansions\<close>

lemma expandPrefix_calls:
  "\<exists>n. 1 \<le> n \<and> n \<le> 5 \<and>
     listCalls (snd (expandPrefix e prefix config w)) =
       listCalls w @ replicate n \<lparr>Prefix = snd (selectFilter config prefix), Delimiter = ''/''\<rparr>"
proof -
  obtain re p where sf: "selectFilter config prefix = (re, p)"
    by (cases "selectFilter config prefix")
  from tryListing_calls [of 5 e re p None w] show ?thesis
    by (simp add: expandPrefix_def maxTry_def sf)
qed

lemma expandAll_success:
  "expandAll e config ps m w = ((m', None), w') \<Longrightarrow>
   \<exists>rs ks. list_all2 (\<lambda>p r. \<exists>w1 w2. expandPrefix e p config w1 = ((r, None), w2)) ps rs
        \<and> Sequences m' = Sequences m @ concat rs
        \<and> length ks = length ps \<and> (\<forall>k \<in> set ks. 1 \<le> k \<and> k \<le> 5)
        \<and> listCalls w' = listCalls w @
            concat (map (\<lambda>(p, k). replicate k \<lparr>Prefix = snd (selectFilter config p), Delimiter = ''/''\<rparr>)
                      (zip ps ks))"
proof (induction ps arbitrary: m w)
  case Nil
  then show ?case by simp
next
  case (Cons p ps)
  obtain r err w1 where ex: "expandPrefix e p config w = ((r, err), w1)"
    by (metis surj_pair)
  with Cons.prems have err: "err = None"
    and rest: "expandAll e config ps (m\<lparr>Sequences := Sequences m @ r\<rparr>) w1 = ((m', None), w')"
    by (auto split: option.splits)
  from Cons.IH [OF rest] obtain rs ks where
    rs: "list_all2 (\<lambda>p r. \<exists>w1 w2. expandPrefix e p config w1 = ((r, None), w2)) ps rs"
    and m': "Sequences m' = (Sequences m @ r) @ concat rs"
    and ks: "length ks = length ps" "\<forall>k \<in> set ks. 1 \<le> k \<and> k \<le> 5"
    and calls: "listCalls w' = listCalls w1 @
            concat (map (\<lambda>(p, k). replicate k \<lparr>Prefix = snd (selectFilter config p), Delimiter = ''/''\<rparr>)
                      (zip ps ks))"
    by auto
  from expandPrefix_calls [of e p config w] ex obtain n where
    n: "1 \<le> n" "n \<le> 5"
      "listCalls w1 = listCalls w @ replicate n \<lparr>Prefix = snd (selectFilter config p), Delimiter = ''/''\<rparr>"
    by auto
  have "list_all2 (\<lambda>p r. \<exists>w1 w2. expandPrefix e p config w1 = ((r, None), w2)) (p # ps) (r # rs)"
    using rs ex err by auto
  moreover have "Sequences m' = Sequences m @ concat (r # rs)" using m' by simp
  moreover have "length (n # ks) = length (p # ps)" using ks by simp
  moreover have "\<forall>k \<in> set (n # ks). 1 \<le> k \<and> k \<le> 5" using ks n by simp
  moreover have "listCalls w' = listCalls w @
            concat (map (\<lambda>(p, k). replicate k \<lparr>Prefix = snd (selectFilter config p), Delimiter = ''/''\<rparr>)
                      (zip (p # ps) (n # ks)))"
    using calls n by simp
  ultimately show ?case by blast
qed

lemma path_Split_foo: "snd (path_Split ''foo/bar/asset'') = ''asset''"
  by code_simp

lemma path_Join_subtitles: "path_Join [''subtitles/'', ''asset''] = ''subtitles/asset''"
  by code_simp

lemma path_Join_names:
  assumes "ns \<noteq> []" and "\<forall>n \<in> set ns. plainName n"
  shows "plainName l \<Longrightarrow> path_Join [slashJoin ns @ ''/'', l] = slashJoin ns @ ''/'' @ l"
    and "plainName l \<Longrightarrow> path_Join [slashJoin ns, l] = slashJoin ns @ ''/'' @ l"
    and "path_Join [slashJoin ns @ ''/'', []] = slashJoin ns"
    and "path_Join [slashJoin ns, []] = slashJoin ns"
  using path_Clean_names [OF assms] slashJoin_nonempty [OF assms]
  by (simp_all add: path_Join_two)

text \<open>
  Claim C5. The physical prefixes are the original prefix followed, for each alternate prefix
  in the order of the configuration, by \<open>path.Join\<close> of the alternate prefix and the last
  segment of the original prefix, which is what follows its last slash. For an alternate
  prefix of plain names that ends with a slash and a plain last segment, the join is the
  alternate prefix followed by the segment: \<open>foo/bar/asset\<close> with \<open>subtitles/\<close> gives
  \<open>subtitles/asset\<close>. When \<open>getPrefixMapping\<close> succeeds, the sequences of its mapping are
  the results of the expansions of the physical prefixes, concatenated in that order with
  nothing removed, and the listing calls it made are, in that order, between one and five
  calls for each physical prefix.
\<close>

theorem getPrefixes_fan_out:
  "getPrefixes originalPrefix config =
     originalPrefix #
     map (\<lambda>p. path_Join [p, snd (path_Split originalPrefix)]) (MapExtraPrefixes config)
   \<and> fst (path_Split originalPrefix) @ snd (path_Split originalPrefix) = originalPrefix
   \<and> CHR ''/'' \<notin> set (snd (path_Split originalPrefix))
   \<and> (fst (path_Split originalPrefix) = [] \<or> last (fst (path_Split originalPrefix)) = CHR ''/'')
   \<and> (\<forall>ns l. ns \<noteq> [] \<and> (\<forall>n \<in> set ns. plainName n) \<and> plainName l \<longrightarrow>
         path_Join [slashJoin ns @ ''/'', l] = slashJoin ns @ ''/'' @ l)
   \<and> getPrefixes ''foo/bar/asset'' (config\<lparr>MapExtraPrefixes := [''subtitles/'']\<rparr>) =
       [''foo/bar/asset'', ''subtitles/asset'']
   \<and> (\<forall>m w'. getPrefixMapping e originalPrefix config w = ((m, None), w') \<longrightarrow>
         (\<exists>rs ks.
            list_all2 (\<lambda>p r. \<exists>w1 w2. expandPrefix e p config w1 = ((r, None), w2))
              (getPrefixes originalPrefix config) rs
            \<and> Sequences m = concat rs
            \<and> length ks = length (getPrefixes originalPrefix config)
            \<and> (\<forall>k \<in> set ks. 1 \<le> k \<and> k \<le> 5)
            \<and> listCalls w' = listCalls w @
                concat (map (\<lambda>(p, k). replicate k
                               \<lparr>Prefix = snd (selectFilter config p), Delimiter = ''/''\<rparr>)
                          (zip (getPrefixes originalPrefix config) ks))))"
proof (intro conjI allI impI)
  show "getPrefixes originalPrefix config =
     originalPrefix #
     map (\<lambda>p. path_Join [p, snd (path_Split originalPrefix)]) (MapExtraPrefixes config)"
    by (rule getPrefixes_eq)
  show "fst (path_Split originalPrefix) @ snd (path_Split originalPrefix) = originalPrefix"
    using path_Split_parts [of originalPrefix] by simp
  show "CHR ''/'' \<notin> set (snd (path_Split originalPrefix))"
    using path_Split_parts [of originalPrefix] by simp
  show "fst (path_Split originalPrefix) = [] \<or> last (fst (path_Split originalPrefix)) = CHR ''/''"
    using path_Split_parts [of originalPrefix] by simp
  show "getPrefixes ''foo/bar/asset'' (config\<lparr>MapExtraPrefixes := [''subtitles/'']\<rparr>) =
       [''foo/bar/asset'', ''subtitles/asset'']"
    by (simp add: getPrefixes_eq path_Split_foo path_Join_subtitles)
next
  fix ns :: "string list" and l :: string
  assume "ns \<noteq> [] \<and> (\<forall>n \<in> set ns. plainName n) \<and> plainName l"
  then show "path_Join [slashJoin ns @ ''/'', l] = slashJoin ns @ ''/'' @ l"
    using path_Join_names(1) [of ns l] by blast
next
  fix m w'
  assume "getPrefixMapping e originalPrefix config w = ((m, None), w')"
  then have "expandAll e config (getPrefixes originalPrefix config) \<lparr>Sequences = []\<rparr> w = ((m, None), w')"
    by (simp add: getPrefixMapping_def)
  from expandAll_success [OF this]
  show "\<exists>rs ks.
            list_all2 (\<lambda>p r. \<exists>w1 w2. expandPrefix e p config w1 = ((r, None), w2))
              (getPrefixes originalPrefix config) rs
            \<and> Sequences m = concat rs
            \<and> length ks = length (getPrefixes originalPrefix config)
            \<and> (\<forall>k \<in> set ks. 1 \<le> k \<and> k \<le> 5)
            \<and> listCalls w' = listCalls w @
                concat (map (\<lambda>(p, k). replicate k
                               \<lparr>Prefix = snd (selectFilter config p), Delimiter = ''/''\<rparr>)
                          (zip (getPrefixes originalPrefix config) ks))"
    by simp
qed

lemma getPrefixMapping_flaky:
  "getPrefixMapping (sampleEnv flakyObjects) ''videos/asset'' sampleConfig world0 =
     ((\<lparr>Sequences =
          [\<lparr>Clips = [\<lparr>Type = ''source'', Path = ''/media/videos/asset_720p.mp4''\<rparr>]\<rparr>,
           \<lparr>Clips = [\<lparr>Type = ''source'', Path = ''/media/videos/asset_720p.mp4''\<rparr>]\<rparr>]\<rparr>, None),
      \<lparr>now = 0,
       listCalls = [\<lparr>Prefix = ''videos/asset'', Delimiter = ''/''\<rparr>,
                    \<lparr>Prefix = ''videos/asset'', Delimiter = ''/''\<rparr>,
                    \<lparr>Prefix = ''subtitles/asset'', Delimiter = ''/''\<rparr>],
       signCalls = []\<rparr>)"
  by code_simp

theorem getPrefixes_fan_out_witness:
  "getPrefixes ''videos/asset'' sampleConfig = [''videos/asset'', ''subtitles/asset'']
   \<and> path_Join [''subtitles/'', ''asset''] = ''subtitles/asset''
   \<and> (\<exists>rs. length rs = 2 \<and>
         [\<lparr>Clips = [\<lparr>Type = ''source'', Path = ''/media/videos/asset_720p.mp4''\<rparr>]\<rparr>,
          \<lparr>Clips = [\<lparr>Type = ''source'', Path = ''/media/videos/asset_720p.mp4''\<rparr>]\<rparr>] = concat rs)"
proof -
  note t = getPrefixes_fan_out [where originalPrefix = "''videos/asset''" and config = sampleConfig
      and e = "sampleEnv flakyObjects" and w = world0]
  have sp: "snd (path_Split ''videos/asset'') = ''asset''" by code_simp
  have pl: "[''subtitles''] \<noteq> [] \<and> (\<forall>n \<in> set [''subtitles'']. plainName n) \<and> plainName ''asset''"
    by (simp add: plainName_def)
  from t [THEN conjunct2, THEN conjunct2, THEN conjunct2, THEN conjunct2, THEN conjunct1,
      THEN spec, THEN spec, THEN mp, OF pl]
  have j: "path_Join [''subtitles/'', ''asset''] = ''subtitles/asset''" by simp
  from t [THEN conjunct1] have g: "getPrefixes ''videos/asset'' sampleConfig = [''videos/asset'', ''subtitles/asset'']"
    by (simp add: sp j sampleConfig_def)
  from t [THEN conjunct2, THEN conjunct2, THEN conjunct2, THEN conjunct2, THEN conjunct2,
      THEN conjunct2, THEN spec, THEN spec, THEN mp, OF getPrefixMapping_flaky]
  obtain rs where rs:
    "list_all2 (\<lambda>p r. \<exists>w1 w2. expandPrefix (sampleEnv flakyObjects) p sampleConfig w1 = ((r, None), w2))
       (getPrefixes ''videos/asset'' sampleConfig) rs"
    "[\<lparr>Clips = [\<lparr>Type = ''source'', Path = ''/media/videos/asset_720p.mp4''\<rparr>]\<rparr>,
      \<lparr>Clips = [\<lparr>Type = ''source'', Path = ''/media/videos/asset_720p.mp4''\<rparr>]\<rparr>] = concat rs"
    by auto
  from rs(1) g have "length rs = 2" by (auto dest: list_all2_lengthD)
  with rs(2) g j show ?thesis by blast
qed

text \<open>
  Claim C10, amended. For an original prefix that ends with a slash the last segment is
  empty, and each alternate physical prefix is the empty string for an empty alternate prefix
  and otherwise \<open>path.Clean\<close> of the alternate prefix followed by a slash. For an alternate
  prefix of plain names separated by single slashes, with or without one slash at its end,
  that is the alternate prefix without the slash at its end: \<open>subtitles/\<close> gives
  \<open>subtitles\<close>.
\<close>

theorem getPrefixes_trailing_slash:
  assumes "originalPrefix \<noteq> []" and "last originalPrefix = CHR ''/''"
  shows "snd (path_Split originalPrefix) = []
       \<and> getPrefixes originalPrefix config =
           originalPrefix #
           map (\<lambda>p. if p = [] then [] else path_Clean (p @ ''/'')) (MapExtraPrefixes config)
       \<and> (\<forall>ns. ns \<noteq> [] \<and> (\<forall>n \<in> set ns. plainName n) \<longrightarrow>
             path_Join [slashJoin ns @ ''/'', snd (path_Split originalPrefix)] = slashJoin ns \<and>
             path_Join [slashJoin ns, snd (path_Split originalPrefix)] = slashJoin ns)"
proof -
  have e: "snd (path_Split originalPrefix) = []"
    by (rule path_Split_trailing_slash [OF assms])
  have "getPrefixes originalPrefix config =
           originalPrefix #
           map (\<lambda>p. if p = [] then [] else path_Clean (p @ ''/'')) (MapExtraPrefixes config)"
    by (simp add: getPrefixes_eq e path_Join_two)
  moreover have "\<forall>ns. ns \<noteq> [] \<and> (\<forall>n \<in> set ns. plainName n) \<longrightarrow>
             path_Join [slashJoin ns @ ''/'', snd (path_Split originalPrefix)] = slashJoin ns \<and>
             path_Join [slashJoin ns, snd (path_Split originalPrefix)] = slashJoin ns"
    using path_Join_names(3,4) by (simp add: e)
  ultimately show ?thesis using e by blast
qed

theorem getPrefixes_trailing_slash_witness:
  "snd (path_Split ''videos/asset/'') = []
   \<and> getPrefixes ''videos/asset/'' sampleConfig = [''videos/asset/'', ''subtitles'']"
proof -
  have a: "''videos/asset/'' \<noteq> []" and b: "last ''videos/asset/'' = CHR ''/''" by simp_all
  note t = getPrefixes_trailing_slash [OF a b, of sampleConfig]
  have pl: "[''subtitles''] \<noteq> [] \<and> (\<forall>n \<in> set [''subtitles'']. plainName n)"
    by (simp add: plainName_def)
  from t [THEN conjunct2, THEN conjunct2, THEN spec, THEN mp, OF pl] t [THEN conjunct1]
  have c: "path_Clean ''subtitles//'' = ''subtitles''"
    by (simp add: path_Join_two)
  from t [THEN conjunct2, THEN conjunct1] c
  have "getPrefixes ''videos/asset/'' sampleConfig = [''videos/asset/'', ''subtitles'']"
    by (simp add: sampleConfig_def)
  with t [THEN conjunct1] show ?thesis by blast
qed

text \<open>
  Claim C10 as stated fails for alternate prefixes that \<open>path.Clean\<close> changes further: the
  alternate \<open>a//b/\<close> gives \<open>a/b\<close>, not \<open>a//b\<close>, and the alternate \<open>/\<close> gives \<open>/\<close>, not
  the empty string.
\<close>

theorem getPrefixes_trailing_slash_counterexample:
  "getPrefixes ''videos/asset/'' (sampleConfig\<lparr>MapExtraPrefixes := [''a//b/'', ''/'']\<rparr>) =
     [''videos/asset/'', ''a/b'', ''/'']
   \<and> map (\<lambda>p. rev (dropWhile (\<lambda>c. c = CHR ''/'') (rev p))) [''a//b/'', ''/''] = [''a//b'', []]
   \<and> getPrefixes ''videos/asset/'' (sampleConfig\<lparr>MapExtraPrefixes := [''a//b/'', ''/'']\<rparr>) \<noteq>
       ''videos/asset/'' # map (\<lambda>p. rev (dropWhile (\<lambda>c. c = CHR ''/'') (rev p))) [''a//b/'', ''/'']"
  by code_simp

end
